theory Spec2Isabelle
  imports Main
begin

section \<open>JavaScript values handed to the fixture code\<close>

text \<open>
  A fixture description is an ordinary JavaScript value.  Plain objects (the directory
  mappings) live in a store and are referred to by address, because the code compares
  them by identity (\<^verbatim>\<open>seen.has\<close>) and because a mapping may contain itself.
  A store is the list of its objects; each object is the list that
  \<^verbatim>\<open>Object.entries\<close> returns for it, in that order.  An instance of the
  \<^verbatim>\<open>Fixture\<close> class carries its two fields, \<^verbatim>\<open>type\<close> and
  \<^verbatim>\<open>content\<close>; the type is the JavaScript string itself.  Each of the two modules
  has a class of its own (\<^verbatim>\<open>Fixture\<close>, \<^verbatim>\<open>FixtureAsync\<close>) and tests
  \<^verbatim>\<open>instanceof\<close> against that class only: in a value handed to a module,
  \<open>VFixture\<close> is an instance of the class of that module, and an instance of the
  class of the other module is an object of the store like any other, with the
  properties \<^verbatim>\<open>type\<close> and \<^verbatim>\<open>content\<close>.
\<close>

type_synonym addr = nat

datatype val =
    VString string
  | VBuffer "nat list"
  | VUint8Array "nat list"
  | VNumber int
  | VBoolean bool
  | VNull
  | VUndefined
  | VObject addr
  | VFixture string val

type_synonym entries = "(string \<times> val) list"

type_synonym heap = "entries list"

text \<open>
  Every \<^verbatim>\<open>throw\<close> of the sources, by its message, and the errors that reach
  the code from outside.
\<close>

datatype error =
    PathNotString  \<comment> \<open>\<^verbatim>\<open>'path' should be a String\<close>\<close>
  | FixtureNotInSubdirectory  \<comment> \<open>\<^verbatim>\<open>A fixture needs to be created in a subdirectory of the root\<close>\<close>
  | IllegalPath string "string set"  \<comment> \<open>\<^verbatim>\<open>Illegal path. Creating, or linking to, path ...\<close>, with the refused parent and the allowed paths\<close>
  | InvalidFixtureContent val  \<comment> \<open>\<^verbatim>\<open>Invalid fixture content: ...\<close>, with the content\<close>
  | CycleDetected string  \<comment> \<open>\<^verbatim>\<open>Cycle detected in fixture contents at ...\<close>, with the name of the entry\<close>
  | DirNeedsObject  \<comment> \<open>\<^verbatim>\<open>A 'dir' fixture must have an Object as content\<close>\<close>
  | FileNeedsStringOrBuffer  \<comment> \<open>\<^verbatim>\<open>A 'file' fixture must have a String, or Buffer as content\<close>\<close>
  | LinkNeedsString string  \<comment> \<open>\<^verbatim>\<open>A '...' fixture must have a target of type String\<close>, with the type\<close>
  | InvalidFixtureType string  \<comment> \<open>\<^verbatim>\<open>Invalid fixture type: '...'\<close>\<close>
  | UnknownFixtureType string  \<comment> \<open>\<^verbatim>\<open>[Fixture.make()] unknown fixture type: ...\<close>\<close>
  | NativeTypeError string  \<comment> \<open>a \<^verbatim>\<open>TypeError\<close> thrown by the language or by \<^verbatim>\<open>node:path\<close>\<close>
  | SystemError string  \<comment> \<open>an error of the file system, with its \<^verbatim>\<open>code\<close>\<close>
  | ForeignError string  \<comment> \<open>an error thrown by the test runner\<close>
  | CreateTestDirFailed error  \<comment> \<open>\<^verbatim>\<open>[TestFixtures.createTestDir()] Failed to create test directory: ...\<close>\<close>

subsection \<open>The operators of the language the code relies on\<close>

fun typeof :: "val \<Rightarrow> string" where
  "typeof (VString s) = ''string''"
| "typeof (VBuffer b) = ''object''"
| "typeof (VUint8Array b) = ''object''"
| "typeof (VNumber n) = ''number''"
| "typeof (VBoolean b) = ''boolean''"
| "typeof VNull = ''object''"
| "typeof VUndefined = ''undefined''"
| "typeof (VObject a) = ''object''"
| "typeof (VFixture t c) = ''object''"

fun instanceof_Fixture :: "val \<Rightarrow> bool" where
  "instanceof_Fixture (VFixture t c) = True"
| "instanceof_Fixture v = False"

fun Buffer_isBuffer :: "val \<Rightarrow> bool" where
  "Buffer_isBuffer (VBuffer b) = True"
| "Buffer_isBuffer v = False"

text \<open>A \<^verbatim>\<open>Buffer\<close> is a \<^verbatim>\<open>Uint8Array\<close> too.\<close>

fun instanceof_Uint8Array :: "val \<Rightarrow> bool" where
  "instanceof_Uint8Array (VBuffer b) = True"
| "instanceof_Uint8Array (VUint8Array b) = True"
| "instanceof_Uint8Array v = False"

fun decimal :: "nat \<Rightarrow> string" where
  "decimal n =
     (if n < 10 then [char_of (48 + n)]
      else decimal (n div 10) @ [char_of (48 + n mod 10)])"

definition indexed :: "val list \<Rightarrow> entries" where
  "indexed vs = zip (map decimal [0..<length vs]) vs"

text \<open>
  \<^verbatim>\<open>Object.entries\<close>: the own enumerable string-keyed properties.  It throws a
  \<^verbatim>\<open>TypeError\<close> on \<^verbatim>\<open>null\<close> and \<^verbatim>\<open>undefined\<close>.  An address
  beyond the store does not occur in a running program; it reads as an object without
  properties.
\<close>

fun Object_entries :: "heap \<Rightarrow> val \<Rightarrow> error + entries" where
  "Object_entries h (VObject a) = Inr (if a < length h then h ! a else [])"
| "Object_entries h VNull = Inl (NativeTypeError ''Cannot convert undefined or null to object'')"
| "Object_entries h VUndefined = Inl (NativeTypeError ''Cannot convert undefined or null to object'')"
| "Object_entries h (VString s) = Inr (indexed (map (\<lambda>c. VString [c]) s))"
| "Object_entries h (VBuffer b) = Inr (indexed (map (\<lambda>n. VNumber (int n)) b))"
| "Object_entries h (VUint8Array b) = Inr (indexed (map (\<lambda>n. VNumber (int n)) b))"
| "Object_entries h (VNumber n) = Inr []"
| "Object_entries h (VBoolean b) = Inr []"
| "Object_entries h (VFixture t c) = Inr [(''type'', VString t), (''content'', c)]"

section \<open>Validation of fixture content (the module \<^verbatim>\<open>fixture\<close>)\<close>

text \<open>
  The synchronous module \<^verbatim>\<open>./fixture.js\<close>; its source is the second part of
  \<^verbatim>\<open>src/temporary-fixture-async.ts\<close>.
\<close>

definition rawToType :: "val \<Rightarrow> error + string" where
  "rawToType content =
     (case content of
        VFixture t c \<Rightarrow> Inr t
      | _ \<Rightarrow>
         (let contentType = typeof content in
          if contentType = ''string'' \<or> Buffer_isBuffer content \<or> instanceof_Uint8Array content
          then Inr ''file''
          else if contentType = ''object'' then Inr ''dir''
          else Inl (InvalidFixtureContent content)))"

text \<open>
  The \<^verbatim>\<open>for\<close> loop of \<^verbatim>\<open>validateDirContents\<close> over the entries of one
  mapping.  The set \<^verbatim>\<open>seen\<close> is one JavaScript \<^verbatim>\<open>Set\<close> shared by all
  recursive calls, so the loop returns it as the call leaves it.
\<close>

function validateDirContents_loop :: "heap \<Rightarrow> entries \<Rightarrow> val set \<Rightarrow> error + val set" where
  "validateDirContents_loop h [] seen = Inr seen"
| "validateDirContents_loop h ((dirName, dirContent) # rest) seen =
     (case rawToType dirContent of
        Inl e \<Rightarrow> Inl e
      | Inr contentType \<Rightarrow>
          if contentType = ''dir'' \<and> typeof dirContent = ''object'' \<and> \<not> instanceof_Fixture dirContent
          then
            (if dirContent \<in> seen then Inl (CycleDetected dirName)
             else
               (case Object_entries h dirContent of
                  Inl e \<Rightarrow> Inl e
                | Inr es \<Rightarrow>
                   (case validateDirContents_loop h es (insert dirContent seen) of
                      Inl e \<Rightarrow> Inl e
                    | Inr seen' \<Rightarrow> validateDirContents_loop h rest seen')))
          else validateDirContents_loop h rest seen)"
  by pat_completeness auto

text \<open>
  The loop terminates because every recursive call happens after a mapping that was
  not yet in \<^verbatim>\<open>seen\<close> has been added to it, and the store is finite.
\<close>

lemma rawToType_dir_object:
  "rawToType v = Inr t \<Longrightarrow> t = ''dir'' \<Longrightarrow> typeof v = ''object'' \<Longrightarrow> \<not> instanceof_Fixture v
     \<Longrightarrow> v = VNull \<or> (\<exists>a. v = VObject a)"
  by (cases v) (auto simp: rawToType_def)

lemma validateDirContents_loop_dom_mono:
  "validateDirContents_loop_dom (h, es, seen) \<Longrightarrow>
     validateDirContents_loop h es seen = Inr seen' \<Longrightarrow> seen \<subseteq> seen'"
proof (induction h es seen arbitrary: seen' rule: validateDirContents_loop.pinduct)
  case (1 h seen)
  then show ?case by (simp add: validateDirContents_loop.psimps)
next
  case (2 h dirName dirContent rest seen)
  show ?case
  proof (cases "rawToType dirContent")
    case (Inl e)
    with "2.prems" "2.hyps" show ?thesis
      by (simp add: validateDirContents_loop.psimps)
  next
    case (Inr ct)
    show ?thesis
    proof (cases "ct = ''dir'' \<and> typeof dirContent = ''object'' \<and> \<not> instanceof_Fixture dirContent")
      case False
      with Inr "2.prems" "2.hyps" have "validateDirContents_loop h rest seen = Inr seen'"
        by (auto simp add: validateDirContents_loop.psimps)
      with "2.IH"(3)[OF Inr False] show ?thesis by blast
    next
      case True
      with Inr "2.prems" "2.hyps" have ns: "dirContent \<notin> seen"
        by (auto simp add: validateDirContents_loop.psimps split: if_splits)
      from True ns Inr "2.prems" "2.hyps" obtain es where es: "Object_entries h dirContent = Inr es"
        by (auto simp add: validateDirContents_loop.psimps split: sum.splits)
      from True ns Inr es "2.prems" "2.hyps" obtain s1 where
        s1: "validateDirContents_loop h es (insert dirContent seen) = Inr s1"
        and s2: "validateDirContents_loop h rest s1 = Inr seen'"
        by (auto simp add: validateDirContents_loop.psimps split: sum.splits)
      from "2.IH"(1)[OF Inr True ns es s1] have "insert dirContent seen \<subseteq> s1" .
      moreover from "2.IH"(2)[OF Inr True ns es s1 s2] have "s1 \<subseteq> seen'" .
      ultimately show ?thesis by blast
    qed
  qed
qed

definition unseen :: "heap \<Rightarrow> val set \<Rightarrow> nat" where
  "unseen h seen = card (VObject ` {..<length h} - seen)"

lemma unseen_mono: "seen \<subseteq> seen' \<Longrightarrow> unseen h seen' \<le> unseen h seen"
  unfolding unseen_def by (intro card_mono) auto

lemma unseen_insert:
  "a < length h \<Longrightarrow> VObject a \<notin> seen \<Longrightarrow> unseen h (insert (VObject a) seen) < unseen h seen"
  unfolding unseen_def by (intro psubset_card_mono) auto

termination validateDirContents_loop
proof (relation "measures [\<lambda>(h, es, seen). unseen h seen, \<lambda>(h, es, seen). length es]")
  show "wf (measures [\<lambda>(h, es, seen). unseen h seen, \<lambda>(h, es, seen). length es])" by simp
next
  fix h :: heap and dirName :: string and dirContent and rest :: entries
    and seen :: "val set" and x2 x2a
  assume a: "rawToType dirContent = Inr x2"
    "x2 = ''dir'' \<and> typeof dirContent = ''object'' \<and> \<not> instanceof_Fixture dirContent"
    "dirContent \<notin> seen" "Object_entries h dirContent = Inr x2a"
  from a(1,2) have "dirContent = VNull \<or> (\<exists>a. dirContent = VObject a)"
    by (auto dest: rawToType_dir_object)
  with a(4) obtain ad where d: "dirContent = VObject ad" by auto
  show "((h, x2a, insert dirContent seen), h, (dirName, dirContent) # rest, seen)
       \<in> measures [\<lambda>(h, es, seen). unseen h seen, \<lambda>(h, es, seen). length es]"
  proof (cases "ad < length h")
    case True
    with a(3) d show ?thesis by (simp add: unseen_insert)
  next
    case False
    with a(4) d have "x2a = []" by auto
    moreover have "unseen h (insert dirContent seen) \<le> unseen h seen"
      by (rule unseen_mono) auto
    ultimately show ?thesis by auto
  qed
next
  fix h :: heap and dirName :: string and dirContent and rest :: entries
    and seen :: "val set" and x2 x2a x2b
  assume a: "rawToType dirContent = Inr x2"
    "Object_entries h dirContent = Inr x2a"
    "validateDirContents_loop h x2a (insert dirContent seen) = Inr x2b"
    "validateDirContents_loop_dom (h, x2a, insert dirContent seen)"
  from validateDirContents_loop_dom_mono[OF a(4) a(3)] have "seen \<subseteq> x2b" by auto
  then have "unseen h x2b \<le> unseen h seen" by (rule unseen_mono)
  then show "((h, rest, x2b), h, (dirName, dirContent) # rest, seen)
       \<in> measures [\<lambda>(h, es, seen). unseen h seen, \<lambda>(h, es, seen). length es]"
    by auto
next
  fix h :: heap and dirName :: string and dirContent and rest :: entries
    and seen :: "val set"
  show "((h, rest, seen), h, (dirName, dirContent) # rest, seen)
       \<in> measures [\<lambda>(h, es, seen). unseen h seen, \<lambda>(h, es, seen). length es]"
    by auto
qed

text \<open>
  \<^verbatim>\<open>validateDirContents(content, seen)\<close>: \<^verbatim>\<open>Object.entries(content)\<close>, then
  the loop.
\<close>

definition validateDirContents :: "heap \<Rightarrow> val \<Rightarrow> val set \<Rightarrow> error + val set" where
  "validateDirContents h content seen =
     (case Object_entries h content of
        Inl e \<Rightarrow> Inl e
      | Inr es \<Rightarrow> validateDirContents_loop h es seen)"

definition assertValidContent :: "heap \<Rightarrow> string \<Rightarrow> val \<Rightarrow> error + unit" where
  "assertValidContent h type content =
     (if type = ''dir'' then
        (if typeof content \<noteq> ''object'' then Inl DirNeedsObject
         else (case validateDirContents h content {content} of
                 Inl e \<Rightarrow> Inl e
               | Inr seen \<Rightarrow> Inr ()))
      else if type = ''file'' then
        (if typeof content \<noteq> ''string'' \<and> \<not> Buffer_isBuffer content
            \<and> \<not> instanceof_Uint8Array content
         then Inl FileNeedsStringOrBuffer
         else Inr ())
      else if type = ''link'' \<or> type = ''symlink'' then
        (if typeof content \<noteq> ''string'' then Inl (LinkNeedsString type) else Inr ())
      else Inl (InvalidFixtureType type))"

text \<open>
  \<^verbatim>\<open>new Fixture(type, content)\<close>: the constructor validates and then stores its
  two arguments; an instance is the pair of its fields.
\<close>

type_synonym fixture = "string \<times> val"

definition new_Fixture :: "heap \<Rightarrow> string \<Rightarrow> val \<Rightarrow> error + fixture" where
  "new_Fixture h type content =
     (case assertValidContent h type content of
        Inl e \<Rightarrow> Inl e
      | Inr u \<Rightarrow> Inr (type, content))"

definition rawToFixture :: "heap \<Rightarrow> val \<Rightarrow> error + fixture" where
  "rawToFixture h content =
     (case content of
        VFixture t c \<Rightarrow> Inr (t, c)
      | _ \<Rightarrow>
         (case rawToType content of
            Inl e \<Rightarrow> Inl e
          | Inr t \<Rightarrow> new_Fixture h t content))"

text \<open>
  The error kinds of the specification.  \<open>InvalidContentError\<close> covers a content
  whose shape does not fit the declared kind and an unrecognised leaf inside a mapping;
  only the latter names the offending value.
\<close>

fun is_InvalidContentError :: "error \<Rightarrow> bool" where
  "is_InvalidContentError (InvalidFixtureContent v) = True"
| "is_InvalidContentError DirNeedsObject = True"
| "is_InvalidContentError FileNeedsStringOrBuffer = True"
| "is_InvalidContentError (LinkNeedsString t) = True"
| "is_InvalidContentError e = False"

fun is_CycleDetectedError :: "error \<Rightarrow> bool" where
  "is_CycleDetectedError (CycleDetected n) = True"
| "is_CycleDetectedError e = False"

section \<open>The platform: paths, the file system, the process\<close>

text \<open>
  The functions of \<^verbatim>\<open>node:path\<close>, \<^verbatim>\<open>node:fs\<close>, \<^verbatim>\<open>node:os\<close> and
  \<^verbatim>\<open>mkdirp\<close> are not part of the repository; the code is modelled over any
  implementation of them, given as a record.  \<open>'fs\<close> is the content of the disk.  A
  file-system function that changes the disk returns the error it throws, if any, and
  the disk as it leaves it.  \<^verbatim>\<open>fs.statSync\<close> returns the \<^verbatim>\<open>Stats\<close> of a path
  or the error it throws.  The synchronous functions (\<^verbatim>\<open>fs.linkSync\<close>, ...) and the
  promise-returning ones (\<^verbatim>\<open>fsPromises.link\<close>, ...) are the same operations of the
  platform.
\<close>

datatype stats = Stats (isDirectory: bool)

record 'fs platform =
  process_cwd :: string
  os_tmpdir :: string
  path_normalize :: "string \<Rightarrow> string"
  path_dirname :: "string \<Rightarrow> string"
  path_join :: "string \<Rightarrow> string \<Rightarrow> string"
  path_resolve :: "string \<Rightarrow> string \<Rightarrow> string"
  mkdirp :: "string \<Rightarrow> 'fs \<Rightarrow> error option \<times> 'fs"
  fs_writeFile :: "string \<Rightarrow> val \<Rightarrow> 'fs \<Rightarrow> error option \<times> 'fs"
  fs_link :: "string \<Rightarrow> string \<Rightarrow> 'fs \<Rightarrow> error option \<times> 'fs"
  fs_stat :: "string \<Rightarrow> 'fs \<Rightarrow> error + stats"
  fs_symlink :: "string \<Rightarrow> string \<Rightarrow> string \<Rightarrow> 'fs \<Rightarrow> error option \<times> 'fs"
  fs_mkdtemp :: "string \<Rightarrow> 'fs \<Rightarrow> (error + string) \<times> 'fs"

text \<open>
  The state the code works on: the module-level \<^verbatim>\<open>allowedPaths\<close>, the disk, and
  the file-system calls that \<^verbatim>\<open>make\<close> has issued so far, in order (a call is
  recorded whether or not it throws).
\<close>

datatype fs_call =
    Mkdirp string
  | WriteFile string val
  | Link string string
  | Stat string
  | Symlink string string string

record 'fs state =
  allowedPaths :: "string set"
  disk :: 'fs
  calls :: "fs_call list"

definition perform ::
  "fs_call \<Rightarrow> ('fs \<Rightarrow> error option \<times> 'fs) \<Rightarrow> 'fs state \<Rightarrow> error option \<times> 'fs state" where
  "perform c f st =
     (case f (disk st) of (r, d) \<Rightarrow> (r, st\<lparr>disk := d, calls := calls st @ [c]\<rparr>))"

fun error_code :: "error \<Rightarrow> string option" where
  "error_code (SystemError c) = Some c"
| "error_code e = None"

section \<open>Materialising a fixture (the module \<^verbatim>\<open>fixture\<close>)\<close>

definition resetAllowedPaths :: "'fs platform \<Rightarrow> 'fs state \<Rightarrow> 'fs state" where
  "resetAllowedPaths E st =
     st\<lparr>allowedPaths := insert (os_tmpdir E) (insert (process_cwd E) {})\<rparr>"

definition checkIfPathExists ::
  "'fs platform \<Rightarrow> string \<Rightarrow> 'fs state \<Rightarrow> (error + stats) \<times> 'fs state" where
  "checkIfPathExists E pathIn st =
     (let st' = st\<lparr>calls := calls st @ [Stat pathIn]\<rparr> in
      case fs_stat E pathIn (disk st) of
        Inl err \<Rightarrow>
          if error_code err = Some ''ENOENT'' then (Inl FixtureNotInSubdirectory, st')
          else (Inl err, st')
      | Inr fileStatus \<Rightarrow> (Inr fileStatus, st'))"

definition checkIfPathIsAllowed :: "'fs platform \<Rightarrow> string \<Rightarrow> 'fs state \<Rightarrow> error + bool" where
  "checkIfPathIsAllowed E newPath st =
     (let dirname = path_dirname E newPath in
      if dirname \<in> allowedPaths st then Inr True
      else Inl (IllegalPath dirname (allowedPaths st)))"

definition getSymLinkTargetType ::
  "'fs platform \<Rightarrow> string \<Rightarrow> 'fs state \<Rightarrow> (error + string) \<times> 'fs state" where
  "getSymLinkTargetType E targetPath st =
     (case checkIfPathExists E targetPath st of
        (Inl e, st') \<Rightarrow> (Inl e, st')
      | (Inr stats, st') \<Rightarrow> (Inr (if isDirectory stats then ''junction'' else ''file''), st'))"

text \<open>
  The \<^verbatim>\<open>symlinks\<close> object: its properties in the order of \<^verbatim>\<open>Object.entries\<close>.
  Assigning to a key that exists replaces the value in place, a new key goes to the
  end.  (The keys are paths; the special order of integer-like keys is not modelled.)
\<close>

type_synonym symlinks = "(string \<times> string) list"

fun assign :: "symlinks \<Rightarrow> string \<Rightarrow> string \<Rightarrow> symlinks" where
  "assign [] k v = [(k, v)]"
| "assign ((k', v') # rest) k v =
     (if k' = k then (k, v) # rest else (k', v') # assign rest k v)"

text \<open>
  A call of \<^verbatim>\<open>make\<close> either does not return within the given recursion depth
  (\<open>None\<close>), or throws (\<open>Inl\<close>), or returns (\<open>Inr\<close>, with the \<^verbatim>\<open>symlinks\<close>
  object as the call leaves it); a throw does not undo what was done to the state.
\<close>

type_synonym 'fs outcome = "((error + symlinks) \<times> 'fs state) option"

text \<open>The last loop of \<^verbatim>\<open>make\<close>, which creates the symlinks that were asked for.\<close>

fun make_symlinks :: "'fs platform \<Rightarrow> symlinks \<Rightarrow> 'fs state \<Rightarrow> error option \<times> 'fs state" where
  "make_symlinks E [] st = (None, st)"
| "make_symlinks E ((symlinkPath, target) # rest) st =
     (case checkIfPathIsAllowed E symlinkPath st of
        Inl e \<Rightarrow> (Some e, st)
      | Inr ok \<Rightarrow>
         (case checkIfPathIsAllowed E target st of
            Inl e \<Rightarrow> (Some e, st)
          | Inr ok' \<Rightarrow>
             (case getSymLinkTargetType E target st of
                (Inl e, st1) \<Rightarrow> (Some e, st1)
              | (Inr symlinkType, st1) \<Rightarrow>
                 (case perform (Symlink target symlinkPath symlinkType)
                         (fs_symlink E target symlinkPath symlinkType) st1 of
                    (Some e, st2) \<Rightarrow> (Some e, st2)
                  | (None, st2) \<Rightarrow> make_symlinks E rest st2))))"

text \<open>
  The loop over the entries of a directory; \<open>mk\<close> is the recursive call of
  \<^verbatim>\<open>make\<close>.
\<close>

fun make_entries ::
  "(val \<Rightarrow> val \<Rightarrow> symlinks option \<Rightarrow> 'fs state \<Rightarrow> 'fs outcome) \<Rightarrow> 'fs platform \<Rightarrow> string
     \<Rightarrow> entries \<Rightarrow> symlinks \<Rightarrow> 'fs state \<Rightarrow> 'fs outcome" where
  "make_entries mk E normalizedPath [] symlinks st = Some (Inr symlinks, st)"
| "make_entries mk E normalizedPath ((name, nestedFixture) # rest) symlinks st =
     (case mk (VString (path_join E normalizedPath name)) nestedFixture (Some symlinks) st of
        None \<Rightarrow> None
      | Some (Inl e, st') \<Rightarrow> Some (Inl e, st')
      | Some (Inr symlinks', st') \<Rightarrow> make_entries mk E normalizedPath rest symlinks' st')"

text \<open>
  The dispatch on \<^verbatim>\<open>fixture.type\<close>.  \<^verbatim>\<open>path.resolve\<close> throws a
  \<^verbatim>\<open>TypeError\<close> when an argument is not a string.
\<close>

definition make_node ::
  "(val \<Rightarrow> val \<Rightarrow> symlinks option \<Rightarrow> 'fs state \<Rightarrow> 'fs outcome) \<Rightarrow> 'fs platform \<Rightarrow> heap
     \<Rightarrow> bool \<Rightarrow> string \<Rightarrow> fixture \<Rightarrow> symlinks \<Rightarrow> 'fs state \<Rightarrow> 'fs outcome" where
  "make_node mk E h isRoot normalizedPath fixture symlinks st =
     (if fst fixture = ''dir'' then
        (case checkIfPathIsAllowed E normalizedPath st of
           Inl e \<Rightarrow> Some (Inl e, st)
         | Inr ok \<Rightarrow>
            (case perform (Mkdirp normalizedPath) (mkdirp E normalizedPath) st of
               (Some e, st1) \<Rightarrow> Some (Inl e, st1)
             | (None, st1) \<Rightarrow>
                (let st2 = (if isRoot then st1\<lparr>allowedPaths := {}\<rparr> else st1);
                     st3 = st2\<lparr>allowedPaths := insert normalizedPath (allowedPaths st2)\<rparr>
                 in case Object_entries h (snd fixture) of
                      Inl e \<Rightarrow> Some (Inl e, st3)
                    | Inr es \<Rightarrow> make_entries mk E normalizedPath es symlinks st3)))
      else if fst fixture = ''file'' then
        (case checkIfPathIsAllowed E normalizedPath st of
           Inl e \<Rightarrow> Some (Inl e, st)
         | Inr ok \<Rightarrow>
            (case perform (WriteFile normalizedPath (snd fixture))
                    (fs_writeFile E normalizedPath (snd fixture)) st of
               (Some e, st1) \<Rightarrow> Some (Inl e, st1)
             | (None, st1) \<Rightarrow> Some (Inr symlinks, st1)))
      else if fst fixture = ''link'' then
        (case snd fixture of
           VString target \<Rightarrow>
            (let normalizedPathDirName = path_dirname E normalizedPath;
                 existingPath = path_resolve E normalizedPathDirName target
             in case checkIfPathIsAllowed E existingPath st of
                  Inl e \<Rightarrow> Some (Inl e, st)
                | Inr ok \<Rightarrow>
                   (case checkIfPathIsAllowed E normalizedPath st of
                      Inl e \<Rightarrow> Some (Inl e, st)
                    | Inr ok' \<Rightarrow>
                       (case perform (Link existingPath normalizedPath)
                               (fs_link E existingPath normalizedPath) st of
                          (Some e, st1) \<Rightarrow> Some (Inl e, st1)
                        | (None, st1) \<Rightarrow> Some (Inr symlinks, st1))))
         | _ \<Rightarrow> Some (Inl (NativeTypeError ''ERR_INVALID_ARG_TYPE''), st))
      else if fst fixture = ''symlink'' then
        (case snd fixture of
           VString target \<Rightarrow>
            (let targetPath = path_resolve E (path_dirname E normalizedPath) target
             in Some (Inr (assign symlinks normalizedPath targetPath), st))
         | _ \<Rightarrow> Some (Inl (NativeTypeError ''ERR_INVALID_ARG_TYPE''), st))
      else Some (Inl (UnknownFixtureType (fst fixture)), st))"

text \<open>
  The body of \<^verbatim>\<open>Fixture.make(pathIn, content, symlinks = null)\<close>, with the recursive
  call as \<open>mk\<close>.
\<close>

definition make_body ::
  "(val \<Rightarrow> val \<Rightarrow> symlinks option \<Rightarrow> 'fs state \<Rightarrow> 'fs outcome) \<Rightarrow> 'fs platform \<Rightarrow> heap
     \<Rightarrow> val \<Rightarrow> val \<Rightarrow> symlinks option \<Rightarrow> 'fs state \<Rightarrow> 'fs outcome" where
  "make_body mk E h pathIn content symlinks st =
     (case pathIn of
        VString p \<Rightarrow>
         (let normalizedPath = path_normalize E p in
          case rawToFixture h content of
            Inl e \<Rightarrow> Some (Inl e, st)
          | Inr fixture \<Rightarrow>
             (let isRoot = (symlinks = None);
                  symlinks1 = (case symlinks of None \<Rightarrow> [] | Some s \<Rightarrow> s);
                  st1 = (if isRoot then resetAllowedPaths E st else st)
              in case make_node mk E h isRoot normalizedPath fixture symlinks1 st1 of
                   None \<Rightarrow> None
                 | Some (Inl e, st2) \<Rightarrow> Some (Inl e, st2)
                 | Some (Inr symlinks2, st2) \<Rightarrow>
                     if isRoot then
                       (case make_symlinks E symlinks2 st2 of
                          (Some e, st3) \<Rightarrow> Some (Inl e, st3)
                        | (None, st3) \<Rightarrow> Some (Inr symlinks2, st3))
                     else Some (Inr symlinks2, st2)))
      | _ \<Rightarrow> Some (Inl PathNotString, st))"

text \<open>
  \<^verbatim>\<open>Fixture.make\<close>.  The first argument bounds the depth of the recursion: a
  \<^verbatim>\<open>Fixture\<close> instance whose mapping was changed after it was built can contain
  itself, and then the JavaScript recursion does not end.
\<close>

primrec Fixture_make ::
  "nat \<Rightarrow> 'fs platform \<Rightarrow> heap \<Rightarrow> val \<Rightarrow> val \<Rightarrow> symlinks option \<Rightarrow> 'fs state \<Rightarrow> 'fs outcome" where
  "Fixture_make 0 E h pathIn content symlinks st = None"
| "Fixture_make (Suc fuel) E h pathIn content symlinks st =
     make_body (Fixture_make fuel E h) E h pathIn content symlinks st"

section \<open>The asynchronous module (\<^verbatim>\<open>fixture-async\<close>)\<close>

text \<open>
  The asynchronous module \<^verbatim>\<open>./fixture-async.js\<close> (its source is
  \<^verbatim>\<open>unnamed/part_000\<close>) repeats every function of the synchronous one, with
  \<^verbatim>\<open>FixtureAsync\<close> for \<^verbatim>\<open>Fixture\<close> and an \<^verbatim>\<open>await\<close> before each call of
  the file system.  It is translated on its own here.  An \<^verbatim>\<open>await\<close> runs the awaited
  operation to its end before the function goes on (no other code of the process is
  interleaved), a rejected promise is a throw.  In a value handed to this module,
  \<open>VFixture\<close> is an instance of \<^verbatim>\<open>FixtureAsync\<close>, and an instance of
  \<^verbatim>\<open>Fixture\<close> is an object of the store with the properties \<^verbatim>\<open>type\<close> and
  \<^verbatim>\<open>content\<close>.  The module has its own \<^verbatim>\<open>allowedPaths\<close>, which is the
  \<open>allowedPaths\<close> of the state it runs on.
\<close>

definition async_rawToType :: "val \<Rightarrow> error + string" where
  "async_rawToType content =
     (case content of
        VFixture t c \<Rightarrow> Inr t
      | _ \<Rightarrow>
         (let contentType = typeof content in
          if contentType = ''string'' \<or> Buffer_isBuffer content \<or> instanceof_Uint8Array content
          then Inr ''file''
          else if contentType = ''object'' then Inr ''dir''
          else Inl (InvalidFixtureContent content)))"

function async_validateDirContents_loop :: "heap \<Rightarrow> entries \<Rightarrow> val set \<Rightarrow> error + val set" where
  "async_validateDirContents_loop h [] seen = Inr seen"
| "async_validateDirContents_loop h ((dirName, dirContent) # rest) seen =
     (case async_rawToType dirContent of
        Inl e \<Rightarrow> Inl e
      | Inr contentType \<Rightarrow>
          if contentType = ''dir'' \<and> typeof dirContent = ''object'' \<and> \<not> instanceof_Fixture dirContent
          then
            (if dirContent \<in> seen then Inl (CycleDetected dirName)
             else
               (case Object_entries h dirContent of
                  Inl e \<Rightarrow> Inl e
                | Inr es \<Rightarrow>
                   (case async_validateDirContents_loop h es (insert dirContent seen) of
                      Inl e \<Rightarrow> Inl e
                    | Inr seen' \<Rightarrow> async_validateDirContents_loop h rest seen')))
          else async_validateDirContents_loop h rest seen)"
  by pat_completeness auto

lemma async_rawToType_dir_object:
  "async_rawToType v = Inr t \<Longrightarrow> t = ''dir'' \<Longrightarrow> typeof v = ''object'' \<Longrightarrow> \<not> instanceof_Fixture v
     \<Longrightarrow> v = VNull \<or> (\<exists>a. v = VObject a)"
  by (cases v) (auto simp: async_rawToType_def)

lemma async_validateDirContents_loop_dom_mono:
  "async_validateDirContents_loop_dom (h, es, seen) \<Longrightarrow>
     async_validateDirContents_loop h es seen = Inr seen' \<Longrightarrow> seen \<subseteq> seen'"
proof (induction h es seen arbitrary: seen' rule: async_validateDirContents_loop.pinduct)
  case (1 h seen)
  then show ?case by (simp add: async_validateDirContents_loop.psimps)
next
  case (2 h dirName dirContent rest seen)
  note ps = async_validateDirContents_loop.psimps
  from "2.prems" "2.hyps" obtain ct where ct: "async_rawToType dirContent = Inr ct"
    by (auto simp add: ps split: sum.splits)
  show ?case
  proof (cases "ct = ''dir'' \<and> typeof dirContent = ''object'' \<and> \<not> instanceof_Fixture dirContent")
    case False
    with ct "2.prems" "2.hyps" have "async_validateDirContents_loop h rest seen = Inr seen'"
      by (auto simp add: ps)
    with "2.IH"(3)[OF ct False] show ?thesis by blast
  next
    case True
    with ct "2.prems" "2.hyps" have ns: "dirContent \<notin> seen"
      by (auto simp add: ps split: if_splits)
    from True ns ct "2.prems" "2.hyps" obtain es where es: "Object_entries h dirContent = Inr es"
      by (auto simp add: ps split: sum.splits)
    from True ns ct es "2.prems" "2.hyps" obtain s1 where
      s1: "async_validateDirContents_loop h es (insert dirContent seen) = Inr s1"
      and s2: "async_validateDirContents_loop h rest s1 = Inr seen'"
      by (auto simp add: ps split: sum.splits)
    from "2.IH"(1)[OF ct True ns es s1] have "insert dirContent seen \<subseteq> s1" .
    moreover from "2.IH"(2)[OF ct True ns es s1 s2] have "s1 \<subseteq> seen'" .
    ultimately show ?thesis by blast
  qed
qed

termination async_validateDirContents_loop
proof (relation "measures [\<lambda>(h, es, seen). unseen h seen, \<lambda>(h, es, seen). length es]")
  show "wf (measures [\<lambda>(h, es, seen). unseen h seen, \<lambda>(h, es, seen). length es])" by simp
next
  fix h :: heap and dirName :: string and dirContent and rest :: entries
    and seen :: "val set" and x2 x2a
  assume a: "async_rawToType dirContent = Inr x2"
    "x2 = ''dir'' \<and> typeof dirContent = ''object'' \<and> \<not> instanceof_Fixture dirContent"
    "dirContent \<notin> seen" "Object_entries h dirContent = Inr x2a"
  from a(1,2) have "dirContent = VNull \<or> (\<exists>a. dirContent = VObject a)"
    by (auto dest: async_rawToType_dir_object)
  with a(4) obtain ad where d: "dirContent = VObject ad" by auto
  show "((h, x2a, insert dirContent seen), h, (dirName, dirContent) # rest, seen)
       \<in> measures [\<lambda>(h, es, seen). unseen h seen, \<lambda>(h, es, seen). length es]"
  proof (cases "ad < length h")
    case True
    with a(3) d show ?thesis by (simp add: unseen_insert)
  next
    case False
    with a(4) d have "x2a = []" by auto
    moreover have "unseen h (insert dirContent seen) \<le> unseen h seen"
      by (rule unseen_mono) auto
    ultimately show ?thesis by auto
  qed
next
  fix h :: heap and dirName :: string and dirContent and rest :: entries
    and seen :: "val set" and x2 x2a x2b
  assume a: "async_rawToType dirContent = Inr x2"
    "Object_entries h dirContent = Inr x2a"
    "async_validateDirContents_loop h x2a (insert dirContent seen) = Inr x2b"
    "async_validateDirContents_loop_dom (h, x2a, insert dirContent seen)"
  from async_validateDirContents_loop_dom_mono[OF a(4) a(3)] have "seen \<subseteq> x2b" by auto
  then have "unseen h x2b \<le> unseen h seen" by (rule unseen_mono)
  then show "((h, rest, x2b), h, (dirName, dirContent) # rest, seen)
       \<in> measures [\<lambda>(h, es, seen). unseen h seen, \<lambda>(h, es, seen). length es]"
    by auto
next
  fix h :: heap and dirName :: string and dirContent and rest :: entries
    and seen :: "val set"
  show "((h, rest, seen), h, (dirName, dirContent) # rest, seen)
       \<in> measures [\<lambda>(h, es, seen). unseen h seen, \<lambda>(h, es, seen). length es]"
    by auto
qed

definition async_validateDirContents :: "heap \<Rightarrow> val \<Rightarrow> val set \<Rightarrow> error + val set" where
  "async_validateDirContents h content seen =
     (case Object_entries h content of
        Inl e \<Rightarrow> Inl e
      | Inr es \<Rightarrow> async_validateDirContents_loop h es seen)"

definition async_assertValidContent :: "heap \<Rightarrow> string \<Rightarrow> val \<Rightarrow> error + unit" where
  "async_assertValidContent h type content =
     (if type = ''dir'' then
        (if typeof content \<noteq> ''object'' then Inl DirNeedsObject
         else (case async_validateDirContents h content {content} of
                 Inl e \<Rightarrow> Inl e
               | Inr seen \<Rightarrow> Inr ()))
      else if type = ''file'' then
        (if typeof content \<noteq> ''string'' \<and> \<not> Buffer_isBuffer content
            \<and> \<not> instanceof_Uint8Array content
         then Inl FileNeedsStringOrBuffer
         else Inr ())
      else if type = ''link'' \<or> type = ''symlink'' then
        (if typeof content \<noteq> ''string'' then Inl (LinkNeedsString type) else Inr ())
      else Inl (InvalidFixtureType type))"

definition new_FixtureAsync :: "heap \<Rightarrow> string \<Rightarrow> val \<Rightarrow> error + fixture" where
  "new_FixtureAsync h type content =
     (case async_assertValidContent h type content of
        Inl e \<Rightarrow> Inl e
      | Inr u \<Rightarrow> Inr (type, content))"

definition async_rawToFixture :: "heap \<Rightarrow> val \<Rightarrow> error + fixture" where
  "async_rawToFixture h content =
     (case content of
        VFixture t c \<Rightarrow> Inr (t, c)
      | _ \<Rightarrow>
         (case async_rawToType content of
            Inl e \<Rightarrow> Inl e
          | Inr t \<Rightarrow> new_FixtureAsync h t content))"

definition async_resetAllowedPaths :: "'fs platform \<Rightarrow> 'fs state \<Rightarrow> 'fs state" where
  "async_resetAllowedPaths E st =
     st\<lparr>allowedPaths := insert (os_tmpdir E) (insert (process_cwd E) {})\<rparr>"

definition async_checkIfPathExists ::
  "'fs platform \<Rightarrow> string \<Rightarrow> 'fs state \<Rightarrow> (error + stats) \<times> 'fs state" where
  "async_checkIfPathExists E pathIn st =
     (let st' = st\<lparr>calls := calls st @ [Stat pathIn]\<rparr> in
      case fs_stat E pathIn (disk st) of
        Inl err \<Rightarrow>
          if error_code err = Some ''ENOENT'' then (Inl FixtureNotInSubdirectory, st')
          else (Inl err, st')
      | Inr fileStatus \<Rightarrow> (Inr fileStatus, st'))"

definition async_checkIfPathIsAllowed :: "'fs platform \<Rightarrow> string \<Rightarrow> 'fs state \<Rightarrow> error + bool" where
  "async_checkIfPathIsAllowed E newPath st =
     (let dirname = path_dirname E newPath in
      if dirname \<in> allowedPaths st then Inr True
      else Inl (IllegalPath dirname (allowedPaths st)))"

definition async_getSymLinkTargetType ::
  "'fs platform \<Rightarrow> string \<Rightarrow> 'fs state \<Rightarrow> (error + string) \<times> 'fs state" where
  "async_getSymLinkTargetType E targetPath st =
     (case async_checkIfPathExists E targetPath st of
        (Inl e, st') \<Rightarrow> (Inl e, st')
      | (Inr stats, st') \<Rightarrow> (Inr (if isDirectory stats then ''junction'' else ''file''), st'))"

fun async_make_symlinks ::
  "'fs platform \<Rightarrow> symlinks \<Rightarrow> 'fs state \<Rightarrow> error option \<times> 'fs state" where
  "async_make_symlinks E [] st = (None, st)"
| "async_make_symlinks E ((symlinkPath, target) # rest) st =
     (case async_checkIfPathIsAllowed E symlinkPath st of
        Inl e \<Rightarrow> (Some e, st)
      | Inr ok \<Rightarrow>
         (case async_checkIfPathIsAllowed E target st of
            Inl e \<Rightarrow> (Some e, st)
          | Inr ok' \<Rightarrow>
             (case async_getSymLinkTargetType E target st of
                (Inl e, st1) \<Rightarrow> (Some e, st1)
              | (Inr symlinkType, st1) \<Rightarrow>
                 (case perform (Symlink target symlinkPath symlinkType)
                         (fs_symlink E target symlinkPath symlinkType) st1 of
                    (Some e, st2) \<Rightarrow> (Some e, st2)
                  | (None, st2) \<Rightarrow> async_make_symlinks E rest st2))))"

fun async_make_entries ::
  "(val \<Rightarrow> val \<Rightarrow> symlinks option \<Rightarrow> 'fs state \<Rightarrow> 'fs outcome) \<Rightarrow> 'fs platform \<Rightarrow> string
     \<Rightarrow> entries \<Rightarrow> symlinks \<Rightarrow> 'fs state \<Rightarrow> 'fs outcome" where
  "async_make_entries mk E normalizedPath [] symlinks st = Some (Inr symlinks, st)"
| "async_make_entries mk E normalizedPath ((name, nestedFixture) # rest) symlinks st =
     (case mk (VString (path_join E normalizedPath name)) nestedFixture (Some symlinks) st of
        None \<Rightarrow> None
      | Some (Inl e, st') \<Rightarrow> Some (Inl e, st')
      | Some (Inr symlinks', st') \<Rightarrow> async_make_entries mk E normalizedPath rest symlinks' st')"

definition async_make_node ::
  "(val \<Rightarrow> val \<Rightarrow> symlinks option \<Rightarrow> 'fs state \<Rightarrow> 'fs outcome) \<Rightarrow> 'fs platform \<Rightarrow> heap
     \<Rightarrow> bool \<Rightarrow> string \<Rightarrow> fixture \<Rightarrow> symlinks \<Rightarrow> 'fs state \<Rightarrow> 'fs outcome" where
  "async_make_node mk E h isRoot normalizedPath fixture symlinks st =
     (if fst fixture = ''dir'' then
        (case async_checkIfPathIsAllowed E normalizedPath st of
           Inl e \<Rightarrow> Some (Inl e, st)
         | Inr ok \<Rightarrow>
            (case perform (Mkdirp normalizedPath) (mkdirp E normalizedPath) st of
               (Some e, st1) \<Rightarrow> Some (Inl e, st1)
             | (None, st1) \<Rightarrow>
                (let st2 = (if isRoot then st1\<lparr>allowedPaths := {}\<rparr> else st1);
                     st3 = st2\<lparr>allowedPaths := insert normalizedPath (allowedPaths st2)\<rparr>
                 in case Object_entries h (snd fixture) of
                      Inl e \<Rightarrow> Some (Inl e, st3)
                    | Inr es \<Rightarrow> async_make_entries mk E normalizedPath es symlinks st3)))
      else if fst fixture = ''file'' then
        (case async_checkIfPathIsAllowed E normalizedPath st of
           Inl e \<Rightarrow> Some (Inl e, st)
         | Inr ok \<Rightarrow>
            (case perform (WriteFile normalizedPath (snd fixture))
                    (fs_writeFile E normalizedPath (snd fixture)) st of
               (Some e, st1) \<Rightarrow> Some (Inl e, st1)
             | (None, st1) \<Rightarrow> Some (Inr symlinks, st1)))
      else if fst fixture = ''link'' then
        (case snd fixture of
           VString target \<Rightarrow>
            (let normalizedPathDirName = path_dirname E normalizedPath;
                 existingPath = path_resolve E normalizedPathDirName target
             in case async_checkIfPathIsAllowed E existingPath st of
                  Inl e \<Rightarrow> Some (Inl e, st)
                | Inr ok \<Rightarrow>
                   (case async_checkIfPathIsAllowed E normalizedPath st of
                      Inl e \<Rightarrow> Some (Inl e, st)
                    | Inr ok' \<Rightarrow>
                       (case perform (Link existingPath normalizedPath)
                               (fs_link E existingPath normalizedPath) st of
                          (Some e, st1) \<Rightarrow> Some (Inl e, st1)
                        | (None, st1) \<Rightarrow> Some (Inr symlinks, st1))))
         | _ \<Rightarrow> Some (Inl (NativeTypeError ''ERR_INVALID_ARG_TYPE''), st))
      else if fst fixture = ''symlink'' then
        (case snd fixture of
           VString target \<Rightarrow>
            (let targetPath = path_resolve E (path_dirname E normalizedPath) target
             in Some (Inr (assign symlinks normalizedPath targetPath), st))
         | _ \<Rightarrow> Some (Inl (NativeTypeError ''ERR_INVALID_ARG_TYPE''), st))
      else Some (Inl (UnknownFixtureType (fst fixture)), st))"

definition async_make_body ::
  "(val \<Rightarrow> val \<Rightarrow> symlinks option \<Rightarrow> 'fs state \<Rightarrow> 'fs outcome) \<Rightarrow> 'fs platform \<Rightarrow> heap
     \<Rightarrow> val \<Rightarrow> val \<Rightarrow> symlinks option \<Rightarrow> 'fs state \<Rightarrow> 'fs outcome" where
  "async_make_body mk E h pathIn content symlinks st =
     (case pathIn of
        VString p \<Rightarrow>
         (let normalizedPath = path_normalize E p in
          case async_rawToFixture h content of
            Inl e \<Rightarrow> Some (Inl e, st)
          | Inr fixture \<Rightarrow>
             (let isRoot = (symlinks = None);
                  symlinks1 = (case symlinks of None \<Rightarrow> [] | Some s \<Rightarrow> s);
                  st1 = (if isRoot then async_resetAllowedPaths E st else st)
              in case async_make_node mk E h isRoot normalizedPath fixture symlinks1 st1 of
                   None \<Rightarrow> None
                 | Some (Inl e, st2) \<Rightarrow> Some (Inl e, st2)
                 | Some (Inr symlinks2, st2) \<Rightarrow>
                     if isRoot then
                       (case async_make_symlinks E symlinks2 st2 of
                          (Some e, st3) \<Rightarrow> Some (Inl e, st3)
                        | (None, st3) \<Rightarrow> Some (Inr symlinks2, st3))
                     else Some (Inr symlinks2, st2)))
      | _ \<Rightarrow> Some (Inl PathNotString, st))"

text \<open>\<^verbatim>\<open>FixtureAsync.make\<close>.\<close>

primrec FixtureAsync_make ::
  "nat \<Rightarrow> 'fs platform \<Rightarrow> heap \<Rightarrow> val \<Rightarrow> val \<Rightarrow> symlinks option \<Rightarrow> 'fs state \<Rightarrow> 'fs outcome" where
  "FixtureAsync_make 0 E h pathIn content symlinks st = None"
| "FixtureAsync_make (Suc fuel) E h pathIn content symlinks st =
     async_make_body (FixtureAsync_make fuel E h) E h pathIn content symlinks st"

section \<open>Test directories (\<^verbatim>\<open>temporary-fixture\<close>, \<^verbatim>\<open>temporary-fixture-async\<close>)\<close>

text \<open>
  The private fields of \<^verbatim>\<open>TestFixtures\<close>.  The hooks of the test runner are not
  part of the repository: \<^verbatim>\<open>onTestFailed\<close> and \<^verbatim>\<open>onTestFinished\<close> are given
  as functions on the state \<open>'r\<close> of the runner that register the callback or throw.
\<close>

record test_fixtures =
  testDir :: "string option"
  testFinished :: bool
  createdTestDir :: bool
  keepFixture :: bool

record 'r vitest =
  onTestFailed :: "'r \<Rightarrow> error option \<times> 'r"
  onTestFinished :: "'r \<Rightarrow> error option \<times> 'r"

text \<open>The values for which \<^verbatim>\<open>content || {}\<close> is the fresh empty object.\<close>

fun falsy :: "val \<Rightarrow> bool" where
  "falsy VUndefined = True"
| "falsy VNull = True"
| "falsy (VBoolean b) = (\<not> b)"
| "falsy (VNumber n) = (n = 0)"
| "falsy (VString s) = (s = [])"
| "falsy v = False"

type_synonym ('fs, 'r) created = "((error + string) \<times> test_fixtures \<times> 'fs state \<times> 'r) option"

text \<open>
  \<^verbatim>\<open>TestFixtures.createTestDir\<close>: everything is inside one \<^verbatim>\<open>try\<close> whose handler
  throws the wrapped error; the two hooks are inside a \<^verbatim>\<open>try\<close> of their own, whose
  handler is empty.
\<close>

definition createTestDir ::
  "nat \<Rightarrow> 'fs platform \<Rightarrow> 'r vitest \<Rightarrow> heap \<Rightarrow> val \<Rightarrow> test_fixtures \<Rightarrow> 'fs state \<Rightarrow> 'r
     \<Rightarrow> ('fs, 'r) created" where
  "createTestDir fuel E V h content this st run =
     (case fs_mkdtemp E (path_join E (os_tmpdir E) ''vitest_'') (disk st) of
        (Inl err, d) \<Rightarrow> Some (Inl (CreateTestDirFailed err), this, st\<lparr>disk := d\<rparr>, run)
      | (Inr dir, d) \<Rightarrow>
         (let this1 = this\<lparr>testDir := Some dir\<rparr>;
              h1 = (if falsy content then h @ [[]] else h);
              content1 = (if falsy content then VObject (length h) else content)
          in case Fixture_make fuel E h1 (VString dir) content1 None (st\<lparr>disk := d\<rparr>) of
               None \<Rightarrow> None
             | Some (Inl err, st2) \<Rightarrow> Some (Inl (CreateTestDirFailed err), this1, st2, run)
             | Some (Inr s, st2) \<Rightarrow>
                (let this2 = this1\<lparr>createdTestDir := True\<rparr>;
                     run2 = (case onTestFailed V run of
                               (Some err, run1) \<Rightarrow> run1
                             | (None, run1) \<Rightarrow> snd (onTestFinished V run1))
                 in Some (Inr dir, this2, st2, run2))))"

text \<open>
  \<^verbatim>\<open>TestFixturesAsync.createTestDir\<close>: the two hooks are called inside the one
  \<^verbatim>\<open>try\<close>.
\<close>

definition async_createTestDir ::
  "nat \<Rightarrow> 'fs platform \<Rightarrow> 'r vitest \<Rightarrow> heap \<Rightarrow> val \<Rightarrow> test_fixtures \<Rightarrow> 'fs state \<Rightarrow> 'r
     \<Rightarrow> ('fs, 'r) created" where
  "async_createTestDir fuel E V h content this st run =
     (let this0 = this\<lparr>testFinished := False, createdTestDir := False\<rparr> in
      case fs_mkdtemp E (path_join E (os_tmpdir E) ''vitest_'') (disk st) of
        (Inl err, d) \<Rightarrow> Some (Inl (CreateTestDirFailed err), this0, st\<lparr>disk := d\<rparr>, run)
      | (Inr dir, d) \<Rightarrow>
         (let this1 = this0\<lparr>testDir := Some dir\<rparr>;
              h1 = (if falsy content then h @ [[]] else h);
              content1 = (if falsy content then VObject (length h) else content)
          in case FixtureAsync_make fuel E h1 (VString dir) content1 None (st\<lparr>disk := d\<rparr>) of
               None \<Rightarrow> None
             | Some (Inl err, st2) \<Rightarrow> Some (Inl (CreateTestDirFailed err), this1, st2, run)
             | Some (Inr s, st2) \<Rightarrow>
                (let this2 = this1\<lparr>createdTestDir := True\<rparr>
                 in case onTestFailed V run of
                      (Some err, run1) \<Rightarrow> Some (Inl (CreateTestDirFailed err), this2, st2, run1)
                    | (None, run1) \<Rightarrow>
                       (case onTestFinished V run1 of
                          (Some err, run2) \<Rightarrow> Some (Inl (CreateTestDirFailed err), this2, st2, run2)
                        | (None, run2) \<Rightarrow> Some (Inr dir, this2, st2, run2)))))"

section \<open>A platform to run the code on\<close>

text \<open>
  One implementation of the platform, used to run the model on examples: the path
  functions of \<^verbatim>\<open>node:path\<close> for POSIX, on strings, and a small disk that maps a
  path to what is stored there.  \<^verbatim>\<open>mkdirp\<close> creates the missing ancestors; a write,
  a link and a symlink need the parent directory; \<^verbatim>\<open>stat\<close> follows a symbolic link
  once; \<^verbatim>\<open>mkdtemp\<close> appends a fixed suffix.  The working directory is
  \<^verbatim>\<open>/work\<close>, the temporary directory \<^verbatim>\<open>/tmp\<close>.
\<close>

fun split_path :: "string \<Rightarrow> string list" where
  "split_path [] = [[]]"
| "split_path (c # cs) =
     (if c = CHR ''/'' then [] # split_path cs
      else (case split_path cs of [] \<Rightarrow> [[c]] | s # ss \<Rightarrow> (c # s) # ss))"

fun normalizeString :: "bool \<Rightarrow> string list \<Rightarrow> string list \<Rightarrow> string list" where
  "normalizeString allowAboveRoot res [] = rev res"
| "normalizeString allowAboveRoot res (s # ss) =
     (if s = [] \<or> s = ''.'' then normalizeString allowAboveRoot res ss
      else if s = ''..'' then
        (case res of
           t # ts \<Rightarrow>
             if t \<noteq> ''..'' then normalizeString allowAboveRoot ts ss
             else if allowAboveRoot then normalizeString allowAboveRoot (''..'' # res) ss
             else normalizeString allowAboveRoot res ss
         | [] \<Rightarrow>
             if allowAboveRoot then normalizeString allowAboveRoot [''..''] ss
             else normalizeString allowAboveRoot [] ss)
      else normalizeString allowAboveRoot (s # res) ss)"

fun join_segments :: "string list \<Rightarrow> string" where
  "join_segments [] = []"
| "join_segments [s] = s"
| "join_segments (s # t # ss) = s @ ''/'' @ join_segments (t # ss)"

definition isAbsolute :: "string \<Rightarrow> bool" where
  "isAbsolute p = (p \<noteq> [] \<and> hd p = CHR ''/'')"

definition posix_normalize :: "string \<Rightarrow> string" where
  "posix_normalize p =
     (if p = [] then ''.''
      else
        (let trailingSeparator = (last p = CHR ''/'');
             n = join_segments (normalizeString (\<not> isAbsolute p) [] (split_path p))
         in if n = [] then (if isAbsolute p then ''/'' else if trailingSeparator then ''./'' else ''.'')
            else (if isAbsolute p then ''/'' else []) @ n @ (if trailingSeparator then ''/'' else [])))"

definition posix_dirname :: "string \<Rightarrow> string" where
  "posix_dirname p =
     (if p = [] then ''.''
      else
        (let r = dropWhile (\<lambda>c. c \<noteq> CHR ''/'') (dropWhile (\<lambda>c. c = CHR ''/'') (rev (tl p)))
         in if r = [] then (if isAbsolute p then ''/'' else ''.'')
            else if isAbsolute p \<and> tl r = [] then ''//''
            else hd p # rev (tl r)))"

definition posix_join :: "string \<Rightarrow> string \<Rightarrow> string" where
  "posix_join a b =
     (if a = [] \<and> b = [] then ''.''
      else if a = [] then posix_normalize b
      else if b = [] then posix_normalize a
      else posix_normalize (a @ ''/'' @ b))"

definition posix_resolve :: "string \<Rightarrow> string \<Rightarrow> string \<Rightarrow> string" where
  "posix_resolve cwd a b =
     (let resolvedPath =
            (if isAbsolute b then b
             else if isAbsolute a then a @ ''/'' @ b
             else cwd @ ''/'' @ a @ ''/'' @ b)
      in ''/'' @ join_segments (normalizeString False [] (split_path resolvedPath)))"


datatype node = Directory | RegularFile val | SymbolicLink string string

type_synonym disk = "(string \<times> node) list"

fun store :: "disk \<Rightarrow> string \<Rightarrow> node \<Rightarrow> disk" where
  "store [] p n = [(p, n)]"
| "store ((q, m) # rest) p n = (if q = p then (p, n) # rest else (q, m) # store rest p n)"

definition parent_is_directory :: "disk \<Rightarrow> string \<Rightarrow> bool" where
  "parent_is_directory d p = (map_of d (posix_dirname p) = Some Directory)"

fun ancestors :: "string \<Rightarrow> string list \<Rightarrow> string list" where
  "ancestors pre [] = []"
| "ancestors pre (s # ss) = (pre @ ''/'' @ s) # ancestors (pre @ ''/'' @ s) ss"

fun mkdirs :: "string list \<Rightarrow> disk \<Rightarrow> error option \<times> disk" where
  "mkdirs [] d = (None, d)"
| "mkdirs (p # ps) d =
     (case map_of d p of
        None \<Rightarrow> mkdirs ps (store d p Directory)
      | Some Directory \<Rightarrow> mkdirs ps d
      | Some other \<Rightarrow> (Some (SystemError ''EEXIST''), d))"

definition posix_mkdirp :: "string \<Rightarrow> disk \<Rightarrow> error option \<times> disk" where
  "posix_mkdirp p d = mkdirs (ancestors [] (normalizeString False [] (split_path p))) d"

definition posix_writeFile :: "string \<Rightarrow> val \<Rightarrow> disk \<Rightarrow> error option \<times> disk" where
  "posix_writeFile p content d =
     (if \<not> parent_is_directory d p then (Some (SystemError ''ENOENT''), d)
      else if map_of d p = Some Directory then (Some (SystemError ''EISDIR''), d)
      else (None, store d p (RegularFile content)))"

definition posix_link :: "string \<Rightarrow> string \<Rightarrow> disk \<Rightarrow> error option \<times> disk" where
  "posix_link existingPath newPath d =
     (case map_of d existingPath of
        None \<Rightarrow> (Some (SystemError ''ENOENT''), d)
      | Some Directory \<Rightarrow> (Some (SystemError ''EPERM''), d)
      | Some n \<Rightarrow>
          if map_of d newPath \<noteq> None then (Some (SystemError ''EEXIST''), d)
          else if \<not> parent_is_directory d newPath then (Some (SystemError ''ENOENT''), d)
          else (None, store d newPath n))"

definition posix_stat :: "string \<Rightarrow> disk \<Rightarrow> error + stats" where
  "posix_stat p d =
     (case map_of d p of
        None \<Rightarrow> Inl (SystemError ''ENOENT'')
      | Some Directory \<Rightarrow> Inr (Stats True)
      | Some (RegularFile c) \<Rightarrow> Inr (Stats False)
      | Some (SymbolicLink target ty) \<Rightarrow>
          (case map_of d target of
             None \<Rightarrow> Inl (SystemError ''ENOENT'')
           | Some Directory \<Rightarrow> Inr (Stats True)
           | Some other \<Rightarrow> Inr (Stats False)))"

definition posix_symlink :: "string \<Rightarrow> string \<Rightarrow> string \<Rightarrow> disk \<Rightarrow> error option \<times> disk" where
  "posix_symlink target p ty d =
     (if map_of d p \<noteq> None then (Some (SystemError ''EEXIST''), d)
      else if \<not> parent_is_directory d p then (Some (SystemError ''ENOENT''), d)
      else (None, store d p (SymbolicLink target ty)))"

definition posix_mkdtemp :: "string \<Rightarrow> disk \<Rightarrow> (error + string) \<times> disk" where
  "posix_mkdtemp prefix d =
     (let p = prefix @ ''XXXXXX'' in
      if map_of d p \<noteq> None then (Inl (SystemError ''EEXIST''), d)
      else if \<not> parent_is_directory d p then (Inl (SystemError ''ENOENT''), d)
      else (Inr p, store d p Directory))"

definition posix :: "disk platform" where
  "posix = \<lparr> process_cwd = ''/work'', os_tmpdir = ''/tmp'',
     path_normalize = posix_normalize, path_dirname = posix_dirname,
     path_join = posix_join, path_resolve = posix_resolve ''/work'',
     mkdirp = posix_mkdirp, fs_writeFile = posix_writeFile, fs_link = posix_link,
     fs_stat = posix_stat, fs_symlink = posix_symlink, fs_mkdtemp = posix_mkdtemp \<rparr>"

definition disk0 :: disk where
  "disk0 = [(''/'', Directory), (''/tmp'', Directory), (''/work'', Directory)]"

definition state0 :: "disk state" where
  "state0 = \<lparr> allowedPaths = {''/work'', ''/tmp''}, disk = disk0, calls = [] \<rparr>"

text \<open>Where the hooks of the test runner are not available, they throw.\<close>

definition no_hooks :: "unit vitest" where
  "no_hooks = \<lparr> onTestFailed = (\<lambda>run. (Some (ForeignError ''onTestFailed: no test is running''), run)),
     onTestFinished = (\<lambda>run. (Some (ForeignError ''onTestFinished: no test is running''), run)) \<rparr>"

definition fresh :: test_fixtures where
  "fresh = \<lparr> testDir = None, testFinished = False, createdTestDir = False, keepFixture = False \<rparr>"

section \<open>Notions used to state the properties\<close>

text \<open>
  \<open>occurs h es n v\<close>: the entry \<open>(n, v)\<close> is met by traversing the entries \<open>es\<close>,
  at any depth, descending through the entries whose value is a raw mapping.
\<close>

inductive occurs :: "heap \<Rightarrow> entries \<Rightarrow> string \<Rightarrow> val \<Rightarrow> bool" for h :: heap where
  top: "(n, v) \<in> set es \<Longrightarrow> occurs h es n v"
| deep: "(m, VObject b) \<in> set es \<Longrightarrow> b < length h \<Longrightarrow> occurs h (h ! b) n v \<Longrightarrow> occurs h es n v"

text \<open>
  \<open>repeats h es\<close>: traversing the entries \<open>es\<close> meets some raw mapping a second
  time: a mapping is reached from two different places of \<open>es\<close>, or a mapping below
  \<open>es\<close> leads back to itself, or this happens inside a mapping below \<open>es\<close>.
\<close>

inductive repeats :: "heap \<Rightarrow> entries \<Rightarrow> bool" for h :: heap where
  twice: "occurs h es1 n1 (VObject a) \<Longrightarrow> occurs h es2 n2 (VObject a) \<Longrightarrow> repeats h (es1 @ es2)"
| cyclic: "(m, VObject b) \<in> set es \<Longrightarrow> b < length h \<Longrightarrow> occurs h (h ! b) k (VObject b) \<Longrightarrow> repeats h es"
| inner: "(m, VObject b) \<in> set es \<Longrightarrow> b < length h \<Longrightarrow> repeats h (h ! b) \<Longrightarrow> repeats h es"

text \<open>
  The order in which the entries are traversed.  A string, a buffer and an instance of
  \<^verbatim>\<open>Fixture\<close> are passed over.  \<open>traverses h es seen seen'\<close>: the traversal of
  the entries \<open>es\<close>, started with the set \<open>seen\<close> of visited mappings, gets
  through all of them, entering every mapping it meets, and ends with the set
  \<open>seen'\<close>.
\<close>

fun passed_over :: "val \<Rightarrow> bool" where
  "passed_over (VString s) = True"
| "passed_over (VBuffer b) = True"
| "passed_over (VUint8Array b) = True"
| "passed_over (VFixture t c) = True"
| "passed_over v = False"

inductive traverses :: "heap \<Rightarrow> entries \<Rightarrow> val set \<Rightarrow> val set \<Rightarrow> bool" for h :: heap where
  finished: "traverses h [] seen seen"
| over: "passed_over v \<Longrightarrow> traverses h rest seen seen' \<Longrightarrow> traverses h ((k, v) # rest) seen seen'"
| through: "VObject b \<notin> seen \<Longrightarrow>
      traverses h (if b < length h then h ! b else []) (insert (VObject b) seen) seen1 \<Longrightarrow>
      traverses h rest seen1 seen' \<Longrightarrow> traverses h ((k, VObject b) # rest) seen seen'"

text \<open>
  \<open>reaches h es seen k v seen'\<close>: the traversal of \<open>es\<close>, started with
  \<open>seen\<close>, arrives at the entry \<open>(k, v)\<close>, at any depth, at a moment when the set
  of visited mappings is \<open>seen'\<close>: it is the first entry, or it is reached inside the
  mapping of the first entry, which was not visited before, or it is reached after the
  first entry has been traversed completely.  Every entry that comes earlier in the
  order of the traversal has then been traversed.
\<close>

inductive reaches :: "heap \<Rightarrow> entries \<Rightarrow> val set \<Rightarrow> string \<Rightarrow> val \<Rightarrow> val set \<Rightarrow> bool" for h :: heap where
  first: "reaches h ((k, v) # rest) seen k v seen"
| inside: "VObject b \<notin> seen \<Longrightarrow> b < length h \<Longrightarrow>
      reaches h (h ! b) (insert (VObject b) seen) k v seen' \<Longrightarrow>
      reaches h ((m, VObject b) # rest) seen k v seen'"
| later: "traverses h [(m, x)] seen seen1 \<Longrightarrow> reaches h rest seen1 k v seen' \<Longrightarrow>
      reaches h ((m, x) # rest) seen k v seen'"

text \<open>
  \<open>offends k v seen e\<close>: the entry \<open>(k, v)\<close> stops the traversal.  Its value is a
  mapping that was visited already, and \<open>e\<close> is the cycle error naming the entry; or
  its value is a number, a boolean or \<^verbatim>\<open>undefined\<close>, and \<open>e\<close> is the error naming
  that value; or its value is \<^verbatim>\<open>null\<close>.
\<close>

definition offends :: "string \<Rightarrow> val \<Rightarrow> val set \<Rightarrow> error \<Rightarrow> bool" where
  "offends k v seen e =
     ((\<exists>a. v = VObject a \<and> v \<in> seen \<and> e = CycleDetected k)
      \<or> (typeof v \<in> {''number'', ''boolean'', ''undefined''} \<and> e = InvalidFixtureContent v)
      \<or> v = VNull)"

text \<open>
  \<open>under E R p\<close>: the directory \<open>R\<close> is reached from \<open>p\<close> by taking the parent
  (\<^verbatim>\<open>path.dirname\<close>) once or more: \<open>p\<close> lies strictly inside \<open>R\<close>.
\<close>

inductive under :: "'fs platform \<Rightarrow> string \<Rightarrow> string \<Rightarrow> bool" for E :: "'fs platform" and R :: string where
  child: "path_dirname E p = R \<Longrightarrow> under E R p"
| below: "under E R (path_dirname E p) \<Longrightarrow> under E R p"

text \<open>Every allowed path is the root \<open>R\<close> or lies inside it.\<close>

definition confined :: "'fs platform \<Rightarrow> string \<Rightarrow> string set \<Rightarrow> bool" where
  "confined E R A = (\<forall>m\<in>A. m = R \<or> under E R m)"

text \<open>Every path a file-system call names lies inside \<open>R\<close>.\<close>

fun call_inside :: "'fs platform \<Rightarrow> string \<Rightarrow> fs_call \<Rightarrow> bool" where
  "call_inside E R (Mkdirp p) = under E R p"
| "call_inside E R (WriteFile p c) = under E R p"
| "call_inside E R (Link x p) = (under E R x \<and> under E R p)"
| "call_inside E R (Stat t) = under E R t"
| "call_inside E R (Symlink t p ty) = (under E R t \<and> under E R p)"

text \<open>
  \<open>grows E A B\<close>: the set \<open>B\<close> comes from \<open>A\<close> by adding paths one at a time, each
  at a moment when its parent is in the set already.
\<close>

inductive grows :: "'fs platform \<Rightarrow> string set \<Rightarrow> string set \<Rightarrow> bool" for E :: "'fs platform" and A :: "string set" where
  same: "grows E A A"
| add: "grows E A B \<Longrightarrow> path_dirname E p \<in> B \<Longrightarrow> grows E A (insert p B)"

text \<open>The calls of the tree walk, and the calls of the last loop.\<close>

fun is_walk_call :: "fs_call \<Rightarrow> bool" where
  "is_walk_call (Mkdirp p) = True"
| "is_walk_call (WriteFile p c) = True"
| "is_walk_call (Link x p) = True"
| "is_walk_call c = False"

text \<open>
  From \<open>st\<close> to \<open>st'\<close> calls were only added to the record of calls, and each added
  call satisfies \<open>P\<close>.
\<close>

definition appended :: "(fs_call \<Rightarrow> bool) \<Rightarrow> 'fs state \<Rightarrow> 'fs state \<Rightarrow> bool" where
  "appended P st st' = (\<exists>new. calls st' = calls st @ new \<and> (\<forall>c\<in>set new. P c))"


text \<open>A call of the last loop whose paths have their parent in \<open>A\<close>.\<close>

fun flush_call_allowed :: "'fs platform \<Rightarrow> string set \<Rightarrow> fs_call \<Rightarrow> bool" where
  "flush_call_allowed E A (Stat t) = (path_dirname E t \<in> A)"
| "flush_call_allowed E A (Symlink t p ty) = (path_dirname E t \<in> A \<and> path_dirname E p \<in> A)"
| "flush_call_allowed E A c = False"

text \<open>The content of \<^verbatim>\<open>allowedPaths\<close> after \<^verbatim>\<open>resetAllowedPaths\<close>.\<close>

definition root_set :: "'fs platform \<Rightarrow> string set" where
  "root_set E = {os_tmpdir E, process_cwd E}"


text \<open>
  What a call of \<^verbatim>\<open>make\<close> below the root does to the state: \<^verbatim>\<open>allowedPaths\<close>
  grows, only calls of the tree walk are added, and every path that is new in
  \<^verbatim>\<open>allowedPaths\<close> was handed to \<^verbatim>\<open>mkdirp\<close>.
\<close>

definition walked :: "'fs platform \<Rightarrow> 'fs state \<Rightarrow> 'fs state \<Rightarrow> bool" where
  "walked E st st' =
     (grows E (allowedPaths st) (allowedPaths st') \<and>
      (\<exists>new. calls st' = calls st @ new \<and> (\<forall>c\<in>set new. is_walk_call c) \<and>
         allowedPaths st' \<subseteq> allowedPaths st \<union> {m. Mkdirp m \<in> set new}))"


text \<open>
  \<open>with_table s x\<close>: the outcome \<open>x\<close>, returning the \<^verbatim>\<open>symlinks\<close> object
  \<open>s\<close>.  \<open>leaves_table mk v\<close>: whatever \<^verbatim>\<open>symlinks\<close> object is passed, the
  call on \<open>v\<close> does the same to the state and returns that object as it got it.
\<close>

definition with_table :: "symlinks \<Rightarrow> 'fs outcome \<Rightarrow> 'fs outcome" where
  "with_table s x =
     (case x of
        None \<Rightarrow> None
      | Some (Inl e, st) \<Rightarrow> Some (Inl e, st)
      | Some (Inr s', st) \<Rightarrow> Some (Inr s, st))"



text \<open>
  One JavaScript value handed to both modules.  \<open>js\<close> is a value in which nothing is
  shared: every mapping and every instance is an object of its own.  \<open>JFixture\<close> is
  an instance of \<^verbatim>\<open>Fixture\<close>, the class of the synchronous module, and
  \<open>JFixtureAsync\<close> an instance of \<^verbatim>\<open>FixtureAsync\<close>.  \<open>seen_by m x h\<close> is
  the value \<open>x\<close> as the module \<open>m\<close> has it, with its objects added to the store
  \<open>h\<close>: an instance of the module's own class is \<open>VFixture\<close>, an instance of the
  other class is an object with the properties \<^verbatim>\<open>type\<close> and \<^verbatim>\<open>content\<close>.
\<close>

datatype js =
    JString string
  | JBuffer "nat list"
  | JUint8Array "nat list"
  | JNumber int
  | JBoolean bool
  | JNull
  | JUndefined
  | JMapping "(string \<times> js) list"
  | JFixture string js
  | JFixtureAsync string js

datatype reader = Synchronous | Asynchronous

fun seen_by :: "reader \<Rightarrow> js \<Rightarrow> heap \<Rightarrow> val \<times> heap"
  and entries_seen_by :: "reader \<Rightarrow> (string \<times> js) list \<Rightarrow> heap \<Rightarrow> entries \<times> heap" where
  "seen_by m (JString s) h = (VString s, h)"
| "seen_by m (JBuffer b) h = (VBuffer b, h)"
| "seen_by m (JUint8Array b) h = (VUint8Array b, h)"
| "seen_by m (JNumber n) h = (VNumber n, h)"
| "seen_by m (JBoolean b) h = (VBoolean b, h)"
| "seen_by m JNull h = (VNull, h)"
| "seen_by m JUndefined h = (VUndefined, h)"
| "seen_by m (JMapping es) h =
     (case entries_seen_by m es (h @ [[]]) of (es', h') \<Rightarrow> (VObject (length h), h'[length h := es']))"
| "seen_by m (JFixture t c) h =
     (if m = Synchronous then (case seen_by m c h of (c', h') \<Rightarrow> (VFixture t c', h'))
      else (case seen_by m c (h @ [[]]) of (c', h') \<Rightarrow>
              (VObject (length h), h'[length h := [(''type'', VString t), (''content'', c')]])))"
| "seen_by m (JFixtureAsync t c) h =
     (if m = Asynchronous then (case seen_by m c h of (c', h') \<Rightarrow> (VFixture t c', h'))
      else (case seen_by m c (h @ [[]]) of (c', h') \<Rightarrow>
              (VObject (length h), h'[length h := [(''type'', VString t), (''content'', c')]])))"
| "entries_seen_by m [] h = ([], h)"
| "entries_seen_by m ((k, v) # es) h =
     (case seen_by m v h of (v', h1) \<Rightarrow>
        (case entries_seen_by m es h1 of (es', h2) \<Rightarrow> ((k, v') # es', h2)))"

text \<open>
  \<open>counterpart x\<close>: the value \<open>x\<close> with every instance replaced by the instance
  of the other class with the same type and content.  \<open>instance_free x\<close>: the value
  holds no instance of either class.
\<close>

fun counterpart :: "js \<Rightarrow> js" and counterpart_entries :: "(string \<times> js) list \<Rightarrow> (string \<times> js) list" where
  "counterpart (JMapping es) = JMapping (counterpart_entries es)"
| "counterpart (JFixture t c) = JFixtureAsync t (counterpart c)"
| "counterpart (JFixtureAsync t c) = JFixture t (counterpart c)"
| "counterpart (JString s) = JString s"
| "counterpart (JBuffer b) = JBuffer b"
| "counterpart (JUint8Array b) = JUint8Array b"
| "counterpart (JNumber n) = JNumber n"
| "counterpart (JBoolean b) = JBoolean b"
| "counterpart JNull = JNull"
| "counterpart JUndefined = JUndefined"
| "counterpart_entries [] = []"
| "counterpart_entries ((k, v) # es) = (k, counterpart v) # counterpart_entries es"

fun instance_free :: "js \<Rightarrow> bool" and instance_free_entries :: "(string \<times> js) list \<Rightarrow> bool" where
  "instance_free (JMapping es) = instance_free_entries es"
| "instance_free (JFixture t c) = False"
| "instance_free (JFixtureAsync t c) = False"
| "instance_free v = True"
| "instance_free_entries [] = True"
| "instance_free_entries ((k, v) # es) = (instance_free v \<and> instance_free_entries es)"

text \<open>
  The mappings \<^verbatim>\<open>{ f: new Fixture('file', 'x') }\<close> and
  \<^verbatim>\<open>{ "a.txt": "hello", "sub": { "b.txt": "world" } }\<close>, and the two functions
  \<^verbatim>\<open>make\<close> on a value of type \<open>js\<close>.
\<close>

definition other_node :: js where
  "other_node = JMapping [(''f'', JFixture ''file'' (JString ''x''))]"

definition plain_tree :: js where
  "plain_tree = JMapping [(''a.txt'', JString ''hello''), (''sub'', JMapping [(''b.txt'', JString ''world'')])]"

definition Fixture_make_of ::
  "nat \<Rightarrow> 'fs platform \<Rightarrow> js \<Rightarrow> val \<Rightarrow> symlinks option \<Rightarrow> 'fs state \<Rightarrow> 'fs outcome" where
  "Fixture_make_of n E x pathIn symlinks st =
     (case seen_by Synchronous x [] of (content, h) \<Rightarrow> Fixture_make n E h pathIn content symlinks st)"

definition FixtureAsync_make_of ::
  "nat \<Rightarrow> 'fs platform \<Rightarrow> js \<Rightarrow> val \<Rightarrow> symlinks option \<Rightarrow> 'fs state \<Rightarrow> 'fs outcome" where
  "FixtureAsync_make_of n E x pathIn symlinks st =
     (case seen_by Asynchronous x [] of (content, h) \<Rightarrow> FixtureAsync_make n E h pathIn content symlinks st)"

text \<open>
  The mapping \<^verbatim>\<open>{ "a.txt": "hello", "sub": { "b.txt": "world" } }\<close>: address 0 is the
  mapping, address 1 is \<^verbatim>\<open>sub\<close>.
\<close>

definition round_trip :: heap where
  "round_trip = [[(''a.txt'', VString ''hello''), (''sub'', VObject 1)], [(''b.txt'', VString ''world'')]]"

text \<open>
  Further stores used as examples: a directory with a hard link to
  \<^verbatim>\<open>../escaped.txt\<close>; the directory
  \<^verbatim>\<open>{ "link": symlink("sibling"), "sibling": { "f.txt": "x" } }\<close> in its two orders
  of iteration (address 0 has the symlink first, address 1 the sibling first, address 2
  is the sibling), and the outcome of materialising it under \<^verbatim>\<open>/tmp/root\<close>; the
  directory \<^verbatim>\<open>{ l2: symlink("l1"), l1: symlink("d"), d: {} }\<close> with \<^verbatim>\<open>l2\<close> first
  (address 0) and with \<^verbatim>\<open>l1\<close> first (address 1); the directory
  \<^verbatim>\<open>{ k: symlink("t"), t: { inner: symlink("../k") } }\<close> in its two orders; a mapping
  that contains itself; a symlink whose target does not exist; and a state in which a
  root, a directory and a file in it exist.
\<close>

definition escaping_link :: heap where
  "escaping_link = [[(''link'', VFixture ''link'' (VString ''../escaped.txt''))]]"






definition self_cycle :: heap where
  "self_cycle = [[(''self'', VObject 0)]]"

text \<open>
  Mappings that lead back to themselves: the one of the repository's own test,
  \<^verbatim>\<open>d = { a: { d: {} } }; d.a.d = d\<close> (address 0 is \<^verbatim>\<open>d\<close>, address 1 is
  \<^verbatim>\<open>d.a\<close>); \<^verbatim>\<open>D = { self: D, a: 1 }\<close> and \<^verbatim>\<open>D = { a: 1, self: D }\<close>; and
  \<^verbatim>\<open>D = { x: new Fixture('dir', D) }\<close>, where \<^verbatim>\<open>x\<close> was added to \<^verbatim>\<open>D\<close> after
  the instance had been built.
\<close>

definition nested_cycle :: heap where
  "nested_cycle = [[(''a'', VObject 1)], [(''d'', VObject 0)]]"

definition cycle_first :: heap where
  "cycle_first = [[(''self'', VObject 0), (''a'', VNumber 1)]]"

definition number_first :: heap where
  "number_first = [[(''a'', VNumber 1), (''self'', VObject 0)]]"

definition tagged_cycle :: heap where
  "tagged_cycle = [[(''x'', VFixture ''dir'' (VObject 0))]]"

definition broken :: heap where
  "broken = [[(''broken'', VFixture ''symlink'' (VString ''does-not-exist''))]]"

definition after_walk :: "disk state" where
  "after_walk = \<lparr>allowedPaths = {''/tmp/root''},
     disk = [(''/'', Directory), (''/tmp'', Directory), (''/tmp/root'', Directory),
             (''/tmp/root/sibling'', Directory), (''/tmp/root/f.txt'', RegularFile (VString ''x''))],
     calls = []\<rparr>"

text \<open>The mapping \<^verbatim>\<open>{ file: 'test content' }\<close> of the repository's tests.\<close>

definition one_file :: heap where
  "one_file = [[(''file'', VString ''test content'')]]"

section \<open>Properties of the validation\<close>

lemma validateDirContents_loop_mono:
  "validateDirContents_loop h es seen = Inr seen' \<Longrightarrow> seen \<subseteq> seen'"
proof (induction h es seen arbitrary: seen' rule: validateDirContents_loop.induct)
  case (1 h seen)
  then show ?case by simp
next
  case (2 h dirName dirContent rest seen)
  from "2.prems" obtain ct where ct: "rawToType dirContent = Inr ct"
    by (auto split: sum.splits)
  show ?case
  proof (cases "ct = ''dir'' \<and> typeof dirContent = ''object'' \<and> \<not> instanceof_Fixture dirContent")
    case False
    with ct "2.prems" have "validateDirContents_loop h rest seen = Inr seen'" by auto
    with "2.IH"(3)[OF ct False] show ?thesis by blast
  next
    case True
    with ct "2.prems" have ns: "dirContent \<notin> seen" by (auto split: if_splits)
    from True ns ct "2.prems" obtain es where es: "Object_entries h dirContent = Inr es"
      by (auto split: sum.splits)
    from True ns ct es "2.prems" obtain s1 where
      s1: "validateDirContents_loop h es (insert dirContent seen) = Inr s1"
      and s2: "validateDirContents_loop h rest s1 = Inr seen'"
      by (auto split: sum.splits)
    from "2.IH"(1)[OF ct True ns es s1] have "insert dirContent seen \<subseteq> s1" .
    moreover from "2.IH"(2)[OF ct True ns es s1 s2] have "s1 \<subseteq> seen'" .
    ultimately show ?thesis by blast
  qed
qed

lemma occurs_Cons:
  "occurs h ((dn, dc) # rest) n v \<longleftrightarrow>
     (dn = n \<and> dc = v) \<or> (\<exists>b. dc = VObject b \<and> b < length h \<and> occurs h (h ! b) n v) \<or> occurs h rest n v"
  (is "?L \<longleftrightarrow> ?R")
proof
  assume ?L then show ?R
    by (cases rule: occurs.cases) (auto intro: occurs.intros)
next
  assume ?R then show ?L
  proof (elim disjE exE conjE)
    assume "dn = n" "dc = v" then show ?L by (auto intro: occurs.top)
  next
    fix b assume "dc = VObject b" "b < length h" "occurs h (h ! b) n v"
    then show ?L by (auto intro: occurs.deep[where m=dn and b=b])
  next
    assume "occurs h rest n v"
    then show ?L
    proof (cases rule: occurs.cases)
      case top then show ?thesis by (auto intro: occurs.top)
    next
      case (deep m b) then show ?thesis by (auto intro: occurs.deep[where m=m and b=b])
    qed
  qed
qed

lemma validateDirContents_loop_rejects_seen:
  "occurs h es n (VObject a) \<Longrightarrow> VObject a \<in> seen \<Longrightarrow> \<exists>e. validateDirContents_loop h es seen = Inl e"
proof (induction h es seen rule: validateDirContents_loop.induct)
  case (1 h seen)
  then show ?case by (auto elim: occurs.cases)
next
  case (2 h dirName dirContent rest seen)
  show ?case
  proof (cases "validateDirContents_loop h ((dirName, dirContent) # rest) seen")
    case (Inl e) then show ?thesis by blast
  next
    case (Inr s')
    then obtain ct where ct: "rawToType dirContent = Inr ct"
      by (auto split: sum.splits)
    show ?thesis
    proof (cases "ct = ''dir'' \<and> typeof dirContent = ''object'' \<and> \<not> instanceof_Fixture dirContent")
      case False
      with ct Inr have r: "validateDirContents_loop h rest seen = Inr s'" by auto
      from False ct have nobj: "\<And>b. dirContent \<noteq> VObject b" by (auto simp: rawToType_def)
      with "2.prems"(1) have "occurs h rest n (VObject a)" by (auto simp: occurs_Cons)
      from "2.IH"(3)[OF ct False this "2.prems"(2)] r show ?thesis by simp
    next
      case True
      with ct Inr have ns: "dirContent \<notin> seen" by (auto split: if_splits)
      from True ns ct Inr obtain es where es: "Object_entries h dirContent = Inr es"
        by (auto split: sum.splits)
      from True ns ct es Inr obtain s1 where
        s1: "validateDirContents_loop h es (insert dirContent seen) = Inr s1"
        and s2: "validateDirContents_loop h rest s1 = Inr s'"
        by (auto split: sum.splits)
      from "2.prems"(1) consider "dirContent = VObject a"
        | b where "dirContent = VObject b" "b < length h" "occurs h (h ! b) n (VObject a)"
        | "occurs h rest n (VObject a)"
        by (auto simp: occurs_Cons)
      then show ?thesis
      proof cases
        case 1
        with ns "2.prems"(2) show ?thesis by simp
      next
        case 2
        with es have "es = h ! b" by simp
        with 2 have "occurs h es n (VObject a)" by simp
        from "2.IH"(1)[OF ct True ns es this] "2.prems"(2) s1 show ?thesis by simp
      next
        case 3
        from validateDirContents_loop_mono[OF s1] "2.prems"(2) have "VObject a \<in> s1" by auto
        from "2.IH"(2)[OF ct True ns es s1 3 this] s2 show ?thesis by simp
      qed
    qed
  qed
qed

lemma validateDirContents_loop_visits:
  "validateDirContents_loop h es seen = Inr seen' \<Longrightarrow> occurs h es n (VObject a) \<Longrightarrow> VObject a \<in> seen'"
proof (induction h es seen arbitrary: seen' rule: validateDirContents_loop.induct)
  case (1 h seen)
  then show ?case by (auto elim: occurs.cases)
next
  case (2 h dirName dirContent rest seen)
  from "2.prems"(1) obtain ct where ct: "rawToType dirContent = Inr ct"
    by (auto split: sum.splits)
  show ?case
  proof (cases "ct = ''dir'' \<and> typeof dirContent = ''object'' \<and> \<not> instanceof_Fixture dirContent")
    case False
    with ct "2.prems"(1) have r: "validateDirContents_loop h rest seen = Inr seen'" by auto
    from False ct have "\<And>b. dirContent \<noteq> VObject b" by (auto simp: rawToType_def)
    with "2.prems"(2) have "occurs h rest n (VObject a)" by (auto simp: occurs_Cons)
    from "2.IH"(3)[OF ct False r this] show ?thesis .
  next
    case True
    with ct "2.prems"(1) have ns: "dirContent \<notin> seen" by (auto split: if_splits)
    from True ns ct "2.prems"(1) obtain es where es: "Object_entries h dirContent = Inr es"
      by (auto split: sum.splits)
    from True ns ct es "2.prems"(1) obtain s1 where
      s1: "validateDirContents_loop h es (insert dirContent seen) = Inr s1"
      and s2: "validateDirContents_loop h rest s1 = Inr seen'"
      by (auto split: sum.splits)
    from validateDirContents_loop_mono[OF s1] have i1: "insert dirContent seen \<subseteq> s1" .
    from validateDirContents_loop_mono[OF s2] have i2: "s1 \<subseteq> seen'" .
    from "2.prems"(2) consider "dirContent = VObject a"
      | b where "dirContent = VObject b" "b < length h" "occurs h (h ! b) n (VObject a)"
      | "occurs h rest n (VObject a)"
      by (auto simp: occurs_Cons)
    then show ?thesis
    proof cases
      case 1
      with i1 i2 show ?thesis by auto
    next
      case 2
      with es have "es = h ! b" by simp
      with 2 have "occurs h es n (VObject a)" by simp
      from "2.IH"(1)[OF ct True ns es s1 this] i2 show ?thesis by auto
    next
      case 3
      from "2.IH"(2)[OF ct True ns es s1 s2 3] show ?thesis .
    qed
  qed
qed

lemma validateDirContents_loop_append:
  "validateDirContents_loop h (es1 @ es2) seen =
     (case validateDirContents_loop h es1 seen of
        Inl e \<Rightarrow> Inl e
      | Inr s \<Rightarrow> validateDirContents_loop h es2 s)"
proof (induction h es1 seen rule: validateDirContents_loop.induct)
  case (1 h seen)
  show ?case by simp
next
  case (2 h dirName dirContent rest seen)
  show ?case
  proof (cases "rawToType dirContent")
    case (Inl e)
    then show ?thesis by simp
  next
    case (Inr ct)
    show ?thesis
    proof (cases "ct = ''dir'' \<and> typeof dirContent = ''object'' \<and> \<not> instanceof_Fixture dirContent")
      case False
      with Inr "2.IH"(3)[OF Inr False] show ?thesis by auto
    next
      case True
      show ?thesis
      proof (cases "dirContent \<in> seen")
        case s: True
        with True Inr show ?thesis by simp
      next
        case ns: False
        show ?thesis
        proof (cases "Object_entries h dirContent")
          case (Inl e)
          with True ns Inr show ?thesis by simp
        next
          case es: (Inr es)
          show ?thesis
          proof (cases "validateDirContents_loop h es (insert dirContent seen)")
            case (Inl e)
            with True ns Inr es show ?thesis by simp
          next
            case s1: (Inr s1)
            from "2.IH"(2)[OF Inr True ns es s1] True ns Inr es s1 show ?thesis by simp
          qed
        qed
      qed
    qed
  qed
qed

lemma validateDirContents_loop_entry_fails:
  assumes "(m, VObject b) \<in> set es"
    and "\<And>seen. VObject b \<in> seen \<Longrightarrow> \<exists>e. validateDirContents_loop h (if b < length h then h ! b else []) seen = Inl e"
  shows "\<exists>e. validateDirContents_loop h es seen = Inl e"
proof -
  from assms(1) obtain pre post where es: "es = pre @ (m, VObject b) # post"
    by (auto simp: in_set_conv_decomp)
  show ?thesis
  proof (cases "validateDirContents_loop h pre seen")
    case (Inl e)
    with es show ?thesis by (simp add: validateDirContents_loop_append)
  next
    case (Inr s)
    show ?thesis
    proof (cases "VObject b \<in> s")
      case True
      with es Inr show ?thesis
        by (simp add: validateDirContents_loop_append rawToType_def)
    next
      case False
      from assms(2)[of "insert (VObject b) s"] obtain e where
        "validateDirContents_loop h (if b < length h then h ! b else []) (insert (VObject b) s) = Inl e"
        by auto
      with es Inr False show ?thesis
        by (simp add: validateDirContents_loop_append rawToType_def)
    qed
  qed
qed

lemma validateDirContents_loop_rejects_repeats:
  "repeats h es \<Longrightarrow> \<exists>e. validateDirContents_loop h es seen = Inl e"
proof (induction arbitrary: seen rule: repeats.induct)
  case (twice es1 n1 a es2 n2)
  show ?case
  proof (cases "validateDirContents_loop h es1 seen")
    case (Inl e)
    then show ?thesis by (simp add: validateDirContents_loop_append)
  next
    case (Inr s)
    from validateDirContents_loop_visits[OF Inr twice(1)] have "VObject a \<in> s" .
    from validateDirContents_loop_rejects_seen[OF twice(2) this] Inr show ?thesis
      by (simp add: validateDirContents_loop_append)
  qed
next
  case (cyclic m b es k)
  show ?case
    by (rule validateDirContents_loop_entry_fails[OF cyclic(1)])
       (use cyclic(2,3) in \<open>auto intro: validateDirContents_loop_rejects_seen\<close>)
next
  case (inner m b es)
  show ?case
    by (rule validateDirContents_loop_entry_fails[OF inner(1)]) (use inner(2,4) in auto)
qed

lemma invalid_leaf_rejected:
  "typeof v \<in> {''number'', ''boolean'', ''undefined''} \<Longrightarrow>
     validateDirContents_loop h ((n, v) # rest) seen = Inl (InvalidFixtureContent v)"
  by (cases v) (auto simp: rawToType_def)

lemma passed_over_loop:
  "passed_over v \<Longrightarrow> validateDirContents_loop h ((k, v) # rest) seen = validateDirContents_loop h rest seen"
  by (cases v) (auto simp: rawToType_def)

lemma through_loop:
  "validateDirContents_loop h ((k, VObject b) # rest) seen =
     (if VObject b \<in> seen then Inl (CycleDetected k)
      else case validateDirContents_loop h (if b < length h then h ! b else []) (insert (VObject b) seen) of
             Inl e \<Rightarrow> Inl e
           | Inr seen1 \<Rightarrow> validateDirContents_loop h rest seen1)"
  by (simp add: rawToType_def)

lemma traverses_loop:
  "traverses h es seen seen' \<Longrightarrow> validateDirContents_loop h es seen = Inr seen'"
proof (induction rule: traverses.induct)
  case (finished seen)
  show ?case by simp
next
  case (over v rest seen seen' k)
  then show ?case by (simp add: passed_over_loop del: validateDirContents_loop.simps)
next
  case (through b seen seen1 rest seen' k)
  then show ?case by (simp add: through_loop del: validateDirContents_loop.simps)
qed

lemma loop_traverses:
  "validateDirContents_loop h es seen = Inr seen' \<Longrightarrow> traverses h es seen seen'"
proof (induction h es seen arbitrary: seen' rule: validateDirContents_loop.induct)
  case (1 h seen)
  then show ?case by (auto intro: traverses.intros)
next
  case (2 h dirName dirContent rest seen)
  from "2.prems" obtain ct where ct: "rawToType dirContent = Inr ct"
    by (auto split: sum.splits)
  show ?case
  proof (cases "ct = ''dir'' \<and> typeof dirContent = ''object'' \<and> \<not> instanceof_Fixture dirContent")
    case False
    with ct "2.prems" have r: "validateDirContents_loop h rest seen = Inr seen'" by auto
    from False ct have "passed_over dirContent"
      by (cases dirContent) (auto simp: rawToType_def split: if_splits)
    with "2.IH"(3)[OF ct False r] show ?thesis by (auto intro: traverses.intros)
  next
    case True
    with ct "2.prems" have ns: "dirContent \<notin> seen" by (auto split: if_splits)
    from True ns ct "2.prems" obtain es where es: "Object_entries h dirContent = Inr es"
      by (auto split: sum.splits)
    from True ns ct es "2.prems" obtain s1 where
      s1: "validateDirContents_loop h es (insert dirContent seen) = Inr s1"
      and s2: "validateDirContents_loop h rest s1 = Inr seen'"
      by (auto split: sum.splits)
    from True ct have "dirContent = VNull \<or> (\<exists>b. dirContent = VObject b)"
      by (auto dest: rawToType_dir_object)
    with es obtain b where b: "dirContent = VObject b" by auto
    with es have es': "es = (if b < length h then h ! b else [])" by simp
    from "2.IH"(1)[OF ct True ns es s1] "2.IH"(2)[OF ct True ns es s1 s2] ns b es'
    show ?thesis by (auto intro: traverses.intros)
  qed
qed

lemma reaches_cycle:
  "reaches h es seen k v seen' \<Longrightarrow> v = VObject a \<Longrightarrow> VObject a \<in> seen' \<Longrightarrow>
     validateDirContents_loop h es seen = Inl (CycleDetected k)"
proof (induction rule: reaches.induct)
  case (first k v rest seen)
  then show ?case by (simp add: through_loop del: validateDirContents_loop.simps)
next
  case (inside b seen k v seen' m rest)
  then show ?case by (simp add: through_loop del: validateDirContents_loop.simps)
next
  case (later m x seen seen1 rest k v seen')
  from traverses_loop[OF later(1)] later(3)[OF later(4,5)]
  show ?case
    using validateDirContents_loop_append[of h "[(m, x)]" rest seen] by simp
qed

lemma reaches_invalid:
  "reaches h es seen k v seen' \<Longrightarrow> typeof v \<in> {''number'', ''boolean'', ''undefined''} \<Longrightarrow>
     validateDirContents_loop h es seen = Inl (InvalidFixtureContent v)"
proof (induction rule: reaches.induct)
  case (first k v rest seen)
  then show ?case by (simp add: invalid_leaf_rejected del: validateDirContents_loop.simps)
next
  case (inside b seen k v seen' m rest)
  then show ?case by (simp add: through_loop del: validateDirContents_loop.simps)
next
  case (later m x seen seen1 rest k v seen')
  from traverses_loop[OF later(1)] later(3)[OF later(4)]
  show ?case
    using validateDirContents_loop_append[of h "[(m, x)]" rest seen] by simp
qed

lemma loop_fails_reaches:
  "validateDirContents_loop h es seen = Inl e \<Longrightarrow>
     \<exists>k v seen'. reaches h es seen k v seen' \<and> offends k v seen' e"
proof (induction h es seen rule: validateDirContents_loop.induct)
  case (1 h seen)
  then show ?case by simp
next
  case (2 h dirName dirContent rest seen)
  show ?case
  proof (cases "rawToType dirContent")
    case (Inl e')
    with "2.prems" have "e' = e" by simp
    with Inl have "typeof dirContent \<in> {''number'', ''boolean'', ''undefined''}" "e = InvalidFixtureContent dirContent"
      by (cases dirContent; auto simp: rawToType_def split: if_splits)+
    then have "offends dirName dirContent seen e" by (simp add: offends_def)
    then show ?thesis by (blast intro: reaches.first)
  next
    case (Inr ct)
    show ?thesis
    proof (cases "ct = ''dir'' \<and> typeof dirContent = ''object'' \<and> \<not> instanceof_Fixture dirContent")
      case False
      with Inr "2.prems" have r: "validateDirContents_loop h rest seen = Inl e" by auto
      from False Inr have po: "passed_over dirContent"
        by (cases dirContent) (auto simp: rawToType_def split: if_splits)
      then have "traverses h [(dirName, dirContent)] seen seen"
        by (auto intro: traverses.intros)
      with "2.IH"(3)[OF Inr False r] show ?thesis by (blast intro: reaches.later)
    next
      case True
      then have "dirContent = VNull \<or> (\<exists>b. dirContent = VObject b)"
        using Inr by (auto dest: rawToType_dir_object)
      then show ?thesis
      proof
        assume "dirContent = VNull"
        then have "offends dirName dirContent seen e" by (simp add: offends_def)
        then show ?thesis by (blast intro: reaches.first)
      next
        assume "\<exists>b. dirContent = VObject b"
        then obtain b where b: "dirContent = VObject b" by blast
        show ?thesis
        proof (cases "dirContent \<in> seen")
          case s: True
          with True Inr "2.prems" have "e = CycleDetected dirName" by simp
          with s b have "offends dirName dirContent seen e" by (simp add: offends_def)
          then show ?thesis by (blast intro: reaches.first)
        next
          case ns: False
          let ?es = "if b < length h then h ! b else []"
          have es: "Object_entries h dirContent = Inr ?es" using b by simp
          show ?thesis
          proof (cases "validateDirContents_loop h ?es (insert dirContent seen)")
            case (Inl e')
            with True ns Inr es "2.prems" have "e' = e"
              by (simp del: Object_entries.simps)
            with Inl "2.IH"(1)[OF Inr True ns es] obtain k v seen' where
              r: "reaches h ?es (insert dirContent seen) k v seen'" and o: "offends k v seen' e"
              by blast
            have bl: "b < length h"
            proof (rule ccontr)
              assume "\<not> b < length h"
              with Inl show False by simp
            qed
            with r b ns have "reaches h ((dirName, dirContent) # rest) seen k v seen'"
              by (auto intro: reaches.inside)
            with o show ?thesis by blast
          next
            case s1: (Inr s1)
            with True ns Inr es "2.prems" have r: "validateDirContents_loop h rest s1 = Inl e"
              by (simp del: Object_entries.simps)
            have "validateDirContents_loop h [(dirName, dirContent)] seen = Inr s1"
              using True ns Inr es s1 by (simp del: Object_entries.simps)
            then have "traverses h [(dirName, dirContent)] seen s1" by (rule loop_traverses)
            with "2.IH"(2)[OF Inr True ns es s1 r] show ?thesis by (blast intro: reaches.later)
          qed
        qed
      qed
    qed
  qed
qed

lemma new_Fixture_dir:
  "d < length h \<Longrightarrow> new_Fixture h ''dir'' (VObject d) =
     (case validateDirContents_loop h (h ! d) {VObject d} of Inl e \<Rightarrow> Inl e | Inr s \<Rightarrow> Inr (''dir'', VObject d))"
  by (simp add: new_Fixture_def assertValidContent_def validateDirContents_def split: sum.splits)

text \<open>
  C4 (as amended).  The traversal enters the mappings that are entries themselves, not
  those held by an instance of \<^verbatim>\<open>Fixture\<close>.  When it arrives at an entry whose value
  is a mapping visited already (the mapping \<open>D\<close> itself or one met before), validation
  fails with the cycle error that names this entry; when it arrives at a number, a
  boolean or \<^verbatim>\<open>undefined\<close>, it fails with the error that names this value.  So
  constructing a \<^verbatim>\<open>dir\<close> fixture over a mapping \<open>D\<close> that leads back to \<open>D\<close>, or
  that leads to some mapping twice, always fails, and it fails at the first entry, in
  the order of the traversal, that offends: with the cycle error naming that entry
  unless an invalid value comes before it.
\<close>

theorem cycle_rejected:
  "(reaches h es seen k (VObject a) seen' \<and> VObject a \<in> seen' \<longrightarrow>
      validateDirContents_loop h es seen = Inl (CycleDetected k))
   \<and> (reaches h es seen k v seen' \<and> typeof v \<in> {''number'', ''boolean'', ''undefined''} \<longrightarrow>
      validateDirContents_loop h es seen = Inl (InvalidFixtureContent v))
   \<and> (d < length h \<and> reaches h (h ! d) {VObject d} k (VObject a) seen' \<and> VObject a \<in> seen' \<longrightarrow>
      new_Fixture h ''dir'' (VObject d) = Inl (CycleDetected k))
   \<and> (d < length h \<and> reaches h (h ! d) {VObject d} k v seen'
        \<and> typeof v \<in> {''number'', ''boolean'', ''undefined''} \<longrightarrow>
      new_Fixture h ''dir'' (VObject d) = Inl (InvalidFixtureContent v))
   \<and> (d < length h \<and> (occurs h (h ! d) n (VObject d) \<or> repeats h (h ! d)) \<longrightarrow>
      (\<exists>e m x s. new_Fixture h ''dir'' (VObject d) = Inl e
          \<and> reaches h (h ! d) {VObject d} m x s \<and> offends m x s e))"
proof (intro conjI impI)
  assume "reaches h es seen k (VObject a) seen' \<and> VObject a \<in> seen'"
  then show "validateDirContents_loop h es seen = Inl (CycleDetected k)"
    by (auto intro: reaches_cycle)
next
  assume "reaches h es seen k v seen' \<and> typeof v \<in> {''number'', ''boolean'', ''undefined''}"
  then show "validateDirContents_loop h es seen = Inl (InvalidFixtureContent v)"
    by (auto intro: reaches_invalid)
next
  assume "d < length h \<and> reaches h (h ! d) {VObject d} k (VObject a) seen' \<and> VObject a \<in> seen'"
  then show "new_Fixture h ''dir'' (VObject d) = Inl (CycleDetected k)"
    by (auto simp: new_Fixture_dir dest: reaches_cycle)
next
  assume "d < length h \<and> reaches h (h ! d) {VObject d} k v seen'
        \<and> typeof v \<in> {''number'', ''boolean'', ''undefined''}"
  then show "new_Fixture h ''dir'' (VObject d) = Inl (InvalidFixtureContent v)"
    by (auto simp: new_Fixture_dir dest: reaches_invalid)
next
  assume a: "d < length h \<and> (occurs h (h ! d) n (VObject d) \<or> repeats h (h ! d))"
  then obtain e where e: "validateDirContents_loop h (h ! d) {VObject d} = Inl e"
    using validateDirContents_loop_rejects_seen[of h "h ! d" n d "{VObject d}"]
      validateDirContents_loop_rejects_repeats[of h "h ! d" "{VObject d}"]
    by auto
  from loop_fails_reaches[OF e] e a
  show "\<exists>e m x s. new_Fixture h ''dir'' (VObject d) = Inl e
          \<and> reaches h (h ! d) {VObject d} m x s \<and> offends m x s e"
    by (auto simp: new_Fixture_dir)
qed

text \<open>
  The mapping of the repository's own test fails at \<^verbatim>\<open>d\<close>; \<^verbatim>\<open>{ self: D, a: 1 }\<close>
  fails at \<^verbatim>\<open>self\<close>, before the number is reached; and in \<^verbatim>\<open>{ a: 1, self: D }\<close>
  the number is reached first.
\<close>

theorem cycle_rejected_witness:
  "reaches nested_cycle (nested_cycle ! 0) {VObject 0} ''d'' (VObject 0) {VObject 1, VObject 0}
   \<and> occurs nested_cycle (nested_cycle ! 0) ''d'' (VObject 0)
   \<and> new_Fixture nested_cycle ''dir'' (VObject 0) = Inl (CycleDetected ''d'')
   \<and> (\<exists>e m x s. new_Fixture nested_cycle ''dir'' (VObject 0) = Inl e
          \<and> reaches nested_cycle (nested_cycle ! 0) {VObject 0} m x s \<and> offends m x s e)
   \<and> reaches cycle_first (cycle_first ! 0) {VObject 0} ''self'' (VObject 0) {VObject 0}
   \<and> new_Fixture cycle_first ''dir'' (VObject 0) = Inl (CycleDetected ''self'')
   \<and> reaches number_first (number_first ! 0) {VObject 0} ''a'' (VNumber 1) {VObject 0}
   \<and> validateDirContents_loop number_first (number_first ! 0) {VObject 0}
        = Inl (InvalidFixtureContent (VNumber 1))
   \<and> new_Fixture number_first ''dir'' (VObject 0) = Inl (InvalidFixtureContent (VNumber 1))
   \<and> validateDirContents_loop cycle_first (cycle_first ! 0) {VObject 0} = Inl (CycleDetected ''self'')"
proof -
  have "reaches nested_cycle (nested_cycle ! 1) (insert (VObject 1) {VObject 0}) ''d'' (VObject 0)
          (insert (VObject 1) {VObject 0})"
    by (simp add: nested_cycle_def reaches.first)
  then have "reaches nested_cycle [(''a'', VObject 1)] {VObject 0} ''d'' (VObject 0)
          (insert (VObject 1) {VObject 0})"
    by (rule reaches.inside[rotated 2]) (simp_all add: nested_cycle_def)
  then have r1: "reaches nested_cycle (nested_cycle ! 0) {VObject 0} ''d'' (VObject 0) {VObject 1, VObject 0}"
    by (simp add: nested_cycle_def)
  have "occurs nested_cycle (nested_cycle ! 1) ''d'' (VObject 0)"
    by (rule occurs.top) (simp add: nested_cycle_def)
  then have "occurs nested_cycle [(''a'', VObject 1)] ''d'' (VObject 0)"
    by (rule occurs.deep[where m = "''a''" and b = 1, rotated 2]) (simp_all add: nested_cycle_def)
  then have o1: "occurs nested_cycle (nested_cycle ! 0) ''d'' (VObject 0)"
    by (simp add: nested_cycle_def)
  have l1: "(0::nat) < length nested_cycle" by (simp add: nested_cycle_def)
  have r2: "reaches cycle_first (cycle_first ! 0) {VObject 0} ''self'' (VObject 0) {VObject 0}"
    by (simp add: cycle_first_def reaches.first)
  have l2: "(0::nat) < length cycle_first" by (simp add: cycle_first_def)
  have r3: "reaches number_first (number_first ! 0) {VObject 0} ''a'' (VNumber 1) {VObject 0}"
    by (simp add: number_first_def reaches.first)
  have 1: "new_Fixture nested_cycle ''dir'' (VObject 0) = Inl (CycleDetected ''d'')
     \<and> (\<exists>e m x s. new_Fixture nested_cycle ''dir'' (VObject 0) = Inl e
          \<and> reaches nested_cycle (nested_cycle ! 0) {VObject 0} m x s \<and> offends m x s e)"
    using r1 o1 l1
      cycle_rejected[where h = nested_cycle and d = 0 and k = "''d''" and a = 0
        and seen' = "{VObject 1, VObject 0}" and n = "''d''" and es = "[]" and seen = "{}"
        and v = VNull]
    by blast
  have 2: "new_Fixture cycle_first ''dir'' (VObject 0) = Inl (CycleDetected ''self'')"
    using r2 l2
      cycle_rejected[where h = cycle_first and d = 0 and k = "''self''" and a = 0
        and seen' = "{VObject 0}" and n = "''d''" and es = "[]" and seen = "{}" and v = VNull]
    by blast
  have l3: "(0::nat) < length number_first" by (simp add: number_first_def)
  have 3: "validateDirContents_loop number_first (number_first ! 0) {VObject 0}
        = Inl (InvalidFixtureContent (VNumber 1))
     \<and> new_Fixture number_first ''dir'' (VObject 0) = Inl (InvalidFixtureContent (VNumber 1))"
    using r3 l3
      cycle_rejected[where h = number_first and es = "number_first ! 0" and seen = "{VObject 0}"
        and k = "''a''" and v = "VNumber 1" and seen' = "{VObject 0}" and d = 0 and a = 0
        and n = "''d''"]
    by simp
  have 4: "validateDirContents_loop cycle_first (cycle_first ! 0) {VObject 0} = Inl (CycleDetected ''self'')"
    using r2
      cycle_rejected[where h = cycle_first and es = "cycle_first ! 0" and seen = "{VObject 0}"
        and k = "''self''" and a = 0 and seen' = "{VObject 0}" and d = 0 and v = VNull
        and n = "''d''"]
    by blast
  from r1 o1 r2 r3 1 2 3 4 show ?thesis by blast
qed

text \<open>
  The claim as stated fails on \<^verbatim>\<open>D = { a: 1 }; D.self = D\<close>: the mapping contains
  itself, and the constructor fails on the number before it reaches \<^verbatim>\<open>self\<close>.  And a
  mapping that contains itself inside an instance of \<^verbatim>\<open>Fixture\<close> is accepted.
\<close>

theorem cycle_counterexample:
  "occurs number_first (number_first ! 0) ''self'' (VObject 0)
   \<and> new_Fixture number_first ''dir'' (VObject 0) = Inl (InvalidFixtureContent (VNumber 1))
   \<and> \<not> is_CycleDetectedError (InvalidFixtureContent (VNumber 1))
   \<and> Object_entries tagged_cycle (VObject 0) = Inr [(''x'', VFixture ''dir'' (VObject 0))]
   \<and> new_Fixture tagged_cycle ''dir'' (VObject 0) = Inr (''dir'', VObject 0)"
  by (simp add: number_first_def tagged_cycle_def new_Fixture_def assertValidContent_def
      validateDirContents_def rawToType_def occurs.top)

text \<open>
  C5.  A number, a boolean or \<^verbatim>\<open>undefined\<close> inside a mapping is refused with the
  error that names the value (\<open>invalid_leaf_rejected\<close>), but \<^verbatim>\<open>null\<close> is not:
  \<^verbatim>\<open>typeof null\<close> is \<^verbatim>\<open>'object'\<close>, so \<^verbatim>\<open>rawToType\<close> classifies it as a
  directory and \<^verbatim>\<open>new Fixture('dir', { a: null })\<close> ends in the
  \<^verbatim>\<open>TypeError\<close> of \<^verbatim>\<open>Object.entries(null)\<close>.
\<close>

theorem null_leaf_not_InvalidContentError:
  "rawToType VNull = Inr ''dir''
   \<and> new_Fixture [[(''a'', VNull)]] ''dir'' (VObject 0)
       = Inl (NativeTypeError ''Cannot convert undefined or null to object'')
   \<and> \<not> is_InvalidContentError (NativeTypeError ''Cannot convert undefined or null to object'')
   \<and> new_Fixture [[(''a'', VNumber 1)]] ''dir'' (VObject 0) = Inl (InvalidFixtureContent (VNumber 1))"
  by (simp add: new_Fixture_def assertValidContent_def validateDirContents_def rawToType_def)

section \<open>Properties of the materialisation\<close>

lemma checkIfPathIsAllowed_Inr:
  "checkIfPathIsAllowed E p st = Inr ok \<longleftrightarrow> ok \<and> path_dirname E p \<in> allowedPaths st"
  by (auto simp: checkIfPathIsAllowed_def Let_def)

lemma checkIfPathIsAllowed_Inl:
  "checkIfPathIsAllowed E p st = Inl e \<longleftrightarrow>
     path_dirname E p \<notin> allowedPaths st \<and> e = IllegalPath (path_dirname E p) (allowedPaths st)"
  by (auto simp: checkIfPathIsAllowed_def Let_def)

lemma make_entries_guarantee:
  assumes refl: "\<And>st. G st st"
    and trans: "\<And>a b c. G a b \<Longrightarrow> G b c \<Longrightarrow> G a c"
    and mk: "\<And>p c s st r st'. mk p c (Some s) st = Some (r, st') \<Longrightarrow> G st st'"
  shows "make_entries mk E np es s st = Some (r, st') \<Longrightarrow> G st st'"
proof (induction es arbitrary: s st)
  case Nil
  then show ?case by (simp add: refl)
next
  case (Cons x es)
  obtain name nested where x: "x = (name, nested)" by (cases x)
  from Cons.prems x obtain r1 st1 where
    r1: "mk (VString (path_join E np name)) nested (Some s) st = Some (r1, st1)"
    by (auto split: option.splits)
  from mk[OF r1] have g1: "G st st1" .
  show ?case
  proof (cases r1)
    case (Inl e)
    with Cons.prems x r1 have "st' = st1" by simp
    with g1 show ?thesis by simp
  next
    case (Inr s1)
    with Cons.prems x r1 have "make_entries mk E np es s1 st1 = Some (r, st')" by simp
    from trans[OF g1 Cons.IH[OF this]] show ?thesis .
  qed
qed

lemma make_node_guarantee:
  assumes refl: "\<And>st. G st st"
    and trans: "\<And>a b c. G a b \<Longrightarrow> G b c \<Longrightarrow> G a c"
    and mkdir_fail: "\<And>st p d. path_dirname E p \<in> allowedPaths st \<Longrightarrow>
        G st (st\<lparr>disk := d, calls := calls st @ [Mkdirp p]\<rparr>)"
    and mkdir_ok: "\<And>st p d. path_dirname E p \<in> allowedPaths st \<Longrightarrow>
        G st (st\<lparr>disk := d, calls := calls st @ [Mkdirp p],
                 allowedPaths := insert p (if isRoot then {} else allowedPaths st)\<rparr>)"
    and wr: "\<And>st p c d. path_dirname E p \<in> allowedPaths st \<Longrightarrow>
        G st (st\<lparr>disk := d, calls := calls st @ [WriteFile p c]\<rparr>)"
    and lk: "\<And>st x p d. path_dirname E x \<in> allowedPaths st \<Longrightarrow> path_dirname E p \<in> allowedPaths st \<Longrightarrow>
        G st (st\<lparr>disk := d, calls := calls st @ [Link x p]\<rparr>)"
    and mk: "\<And>p c s st r st'. mk p c (Some s) st = Some (r, st') \<Longrightarrow> G st st'"
  shows "make_node mk E h isRoot np f s st = Some (r, st') \<Longrightarrow> G st st'"
proof -
  assume m: "make_node mk E h isRoot np f s st = Some (r, st')"
  consider (isdir) "fst f = ''dir''" | (isfile) "fst f = ''file''" | (islink) "fst f = ''link''"
    | (issymlink) "fst f = ''symlink''"
    | (other) "fst f \<noteq> ''dir''" "fst f \<noteq> ''file''" "fst f \<noteq> ''link''" "fst f \<noteq> ''symlink''"
    by blast
  then show ?thesis
  proof cases
    case isdir
    show ?thesis
    proof (cases "path_dirname E np \<in> allowedPaths st")
      case False
      with m isdir have "st' = st"
        by (simp add: make_node_def checkIfPathIsAllowed_def)
      then show ?thesis by (simp add: refl)
    next
      case True
      obtain e d where md: "mkdirp E np (disk st) = (e, d)" by (cases "mkdirp E np (disk st)")
      show ?thesis
      proof (cases e)
        case (Some err)
        with m isdir True md have "st' = st\<lparr>disk := d, calls := calls st @ [Mkdirp np]\<rparr>"
          by (simp add: make_node_def checkIfPathIsAllowed_def perform_def)
        with mkdir_fail[OF True] show ?thesis by simp
      next
        case None
        let ?st3 = "st\<lparr>disk := d, calls := calls st @ [Mkdirp np],
                 allowedPaths := insert np (if isRoot then {} else allowedPaths st)\<rparr>"
        have g: "G st ?st3" by (rule mkdir_ok[OF True])
        show ?thesis
        proof (cases "Object_entries h (snd f)")
          case (Inl err)
          with m isdir True md None have "st' = ?st3"
            by (cases isRoot) (simp_all add: make_node_def checkIfPathIsAllowed_def perform_def)
          with g show ?thesis by simp
        next
          case (Inr es)
          with m isdir True md None have "make_entries mk E np es s ?st3 = Some (r, st')"
            by (cases isRoot) (simp_all add: make_node_def checkIfPathIsAllowed_def perform_def)
          from make_entries_guarantee[of G, OF refl trans mk this] have "G ?st3 st'" .
          from trans[OF g this] show ?thesis .
        qed
      qed
    qed
  next
    case isfile
    show ?thesis
    proof (cases "path_dirname E np \<in> allowedPaths st")
      case False
      with m isfile have "st' = st"
        by (simp add: make_node_def checkIfPathIsAllowed_def)
      then show ?thesis by (simp add: refl)
    next
      case True
      obtain e d where md: "fs_writeFile E np (snd f) (disk st) = (e, d)"
        by (cases "fs_writeFile E np (snd f) (disk st)")
      with m isfile True have "st' = st\<lparr>disk := d, calls := calls st @ [WriteFile np (snd f)]\<rparr>"
        by (cases e) (simp_all add: make_node_def checkIfPathIsAllowed_def perform_def)
      with wr[OF True] show ?thesis by simp
    qed
  next
    case islink
    show ?thesis
    proof (cases "snd f")
      case (VString target)
      let ?x = "path_resolve E (path_dirname E np) target"
      show ?thesis
      proof (cases "path_dirname E ?x \<in> allowedPaths st \<and> path_dirname E np \<in> allowedPaths st")
        case False
        with m islink VString have "st' = st"
          by (auto simp add: make_node_def checkIfPathIsAllowed_def Let_def split: if_splits)
        then show ?thesis by (simp add: refl)
      next
        case True
        obtain e d where md: "fs_link E ?x np (disk st) = (e, d)"
          by (cases "fs_link E ?x np (disk st)")
        with m islink True VString have "st' = st\<lparr>disk := d, calls := calls st @ [Link ?x np]\<rparr>"
          by (cases e) (simp_all add: make_node_def checkIfPathIsAllowed_def perform_def Let_def)
        with lk[of ?x st np d] True show ?thesis by simp
      qed
    qed (use m islink in \<open>simp_all add: make_node_def refl\<close>)
  next
    case issymlink
    with m have "st' = st"
      by (cases "snd f") (simp_all add: make_node_def Let_def)
    then show ?thesis by (simp add: refl)
  next
    case other
    with m have "st' = st" by (simp add: make_node_def)
    then show ?thesis by (simp add: refl)
  qed
qed

lemma make_guarantee:
  assumes refl: "\<And>st. G st st"
    and trans: "\<And>a b c. G a b \<Longrightarrow> G b c \<Longrightarrow> G a c"
    and mkdir_fail: "\<And>st p d. path_dirname E p \<in> allowedPaths st \<Longrightarrow>
        G st (st\<lparr>disk := d, calls := calls st @ [Mkdirp p]\<rparr>)"
    and mkdir_ok: "\<And>st p d. path_dirname E p \<in> allowedPaths st \<Longrightarrow>
        G st (st\<lparr>disk := d, calls := calls st @ [Mkdirp p], allowedPaths := insert p (allowedPaths st)\<rparr>)"
    and wr: "\<And>st p c d. path_dirname E p \<in> allowedPaths st \<Longrightarrow>
        G st (st\<lparr>disk := d, calls := calls st @ [WriteFile p c]\<rparr>)"
    and lk: "\<And>st x p d. path_dirname E x \<in> allowedPaths st \<Longrightarrow> path_dirname E p \<in> allowedPaths st \<Longrightarrow>
        G st (st\<lparr>disk := d, calls := calls st @ [Link x p]\<rparr>)"
  shows "Fixture_make n E h p c (Some s) st = Some (r, st') \<Longrightarrow> G st st'"
proof (induction n arbitrary: p c s st r st')
  case 0
  then show ?case by simp
next
  case (Suc n)
  show ?case
  proof (cases p)
    case (VString q)
    show ?thesis
    proof (cases "rawToFixture h c")
      case (Inl e)
      with Suc.prems VString have "st' = st" by (simp add: make_body_def)
      then show ?thesis by (simp add: refl)
    next
      case (Inr f)
      from Suc.prems VString Inr obtain r2 st2 where
        n: "make_node (Fixture_make n E h) E h False (path_normalize E q) f s st = Some (r2, st2)"
        and st2: "st' = st2"
        by (auto simp add: make_body_def Let_def split: option.splits sum.splits)
      have "G st st2"
        by (rule make_node_guarantee[of G E False, OF refl trans mkdir_fail _ wr lk Suc.IH n])
           (simp_all add: mkdir_ok)
      with st2 show ?thesis by simp
    qed
  qed (use Suc.prems in \<open>simp_all add: make_body_def refl\<close>)
qed

lemma under_parent_allowed:
  "confined E R A \<Longrightarrow> path_dirname E p \<in> A \<Longrightarrow> under E R p"
  unfolding confined_def by (auto intro: under.intros)

lemma grows_trans: "grows E B C \<Longrightarrow> grows E A B \<Longrightarrow> grows E A C"
  by (induction rule: grows.induct) (auto intro: grows.intros)

lemma grows_subset: "grows E A B \<Longrightarrow> A \<subseteq> B"
  by (induction rule: grows.induct) auto

lemma grows_confined: "grows E A B \<Longrightarrow> confined E R A \<Longrightarrow> confined E R B"
  by (induction rule: grows.induct) (auto simp: confined_def intro: under.intros)

lemma appended_refl: "appended P st st"
  by (simp add: appended_def)

lemma appended_trans: "appended P a b \<Longrightarrow> appended P b c \<Longrightarrow> appended P a c"
  unfolding appended_def by (metis Un_iff append.assoc set_append)


lemma make_grows:
  "Fixture_make n E h p c (Some s) st = Some (r, st') \<Longrightarrow> grows E (allowedPaths st) (allowedPaths st')"
  by (rule make_guarantee[where G = "\<lambda>a b. grows E (allowedPaths a) (allowedPaths b)"])
     (auto intro: grows.intros grows_trans)

lemma make_confined:
  assumes "Fixture_make n E h p c (Some s) st = Some (r, st')"
  shows "confined E R (allowedPaths st) \<longrightarrow>
           confined E R (allowedPaths st') \<and> appended (call_inside E R) st st'"
proof (rule make_guarantee[where G = "\<lambda>a b. confined E R (allowedPaths a) \<longrightarrow>
           confined E R (allowedPaths b) \<and> appended (call_inside E R) a b", OF _ _ _ _ _ _ assms])
  show "\<And>st. confined E R (allowedPaths st) \<longrightarrow>
           confined E R (allowedPaths st) \<and> appended (call_inside E R) st st"
    by (simp add: appended_refl)
  show "\<And>a b c. confined E R (allowedPaths a) \<longrightarrow> confined E R (allowedPaths b) \<and> appended (call_inside E R) a b \<Longrightarrow>
     confined E R (allowedPaths b) \<longrightarrow> confined E R (allowedPaths c) \<and> appended (call_inside E R) b c \<Longrightarrow>
     confined E R (allowedPaths a) \<longrightarrow> confined E R (allowedPaths c) \<and> appended (call_inside E R) a c"
    by (blast intro: appended_trans)
  show "\<And>st p d. path_dirname E p \<in> allowedPaths st \<Longrightarrow>
       confined E R (allowedPaths st) \<longrightarrow>
       confined E R (allowedPaths (st\<lparr>disk := d, calls := calls st @ [Mkdirp p]\<rparr>)) \<and>
       appended (call_inside E R) st (st\<lparr>disk := d, calls := calls st @ [Mkdirp p]\<rparr>)"
    by (auto simp: appended_def dest: under_parent_allowed)
  show "\<And>st p d. path_dirname E p \<in> allowedPaths st \<Longrightarrow>
       confined E R (allowedPaths st) \<longrightarrow>
       confined E R (allowedPaths (st\<lparr>disk := d, calls := calls st @ [Mkdirp p],
                 allowedPaths := insert p (allowedPaths st)\<rparr>)) \<and>
       appended (call_inside E R) st (st\<lparr>disk := d, calls := calls st @ [Mkdirp p],
                 allowedPaths := insert p (allowedPaths st)\<rparr>)"
    by (auto simp: appended_def confined_def intro: under.intros)
  show "\<And>st p c d. path_dirname E p \<in> allowedPaths st \<Longrightarrow>
       confined E R (allowedPaths st) \<longrightarrow>
       confined E R (allowedPaths (st\<lparr>disk := d, calls := calls st @ [WriteFile p c]\<rparr>)) \<and>
       appended (call_inside E R) st (st\<lparr>disk := d, calls := calls st @ [WriteFile p c]\<rparr>)"
    by (auto simp: appended_def dest: under_parent_allowed)
  show "\<And>st x p d. path_dirname E x \<in> allowedPaths st \<Longrightarrow> path_dirname E p \<in> allowedPaths st \<Longrightarrow>
       confined E R (allowedPaths st) \<longrightarrow>
       confined E R (allowedPaths (st\<lparr>disk := d, calls := calls st @ [Link x p]\<rparr>)) \<and>
       appended (call_inside E R) st (st\<lparr>disk := d, calls := calls st @ [Link x p]\<rparr>)"
    by (auto simp: appended_def dest: under_parent_allowed)
qed

lemma make_symlinks_step:
  "make_symlinks E ((sp, t) # rest) st =
     (if path_dirname E sp \<notin> allowedPaths st
      then (Some (IllegalPath (path_dirname E sp) (allowedPaths st)), st)
      else if path_dirname E t \<notin> allowedPaths st
      then (Some (IllegalPath (path_dirname E t) (allowedPaths st)), st)
      else
        (case fs_stat E t (disk st) of
           Inl err \<Rightarrow>
             (Some (if error_code err = Some ''ENOENT'' then FixtureNotInSubdirectory else err),
              st\<lparr>calls := calls st @ [Stat t]\<rparr>)
         | Inr stats \<Rightarrow>
             (let ty = (if isDirectory stats then ''junction'' else ''file'');
                  st2 = st\<lparr>disk := snd (fs_symlink E t sp ty (disk st)),
                           calls := calls st @ [Stat t, Symlink t sp ty]\<rparr>
              in case fst (fs_symlink E t sp ty (disk st)) of
                   Some e \<Rightarrow> (Some e, st2)
                 | None \<Rightarrow> make_symlinks E rest st2)))"
  by (simp add: checkIfPathIsAllowed_def getSymLinkTargetType_def checkIfPathExists_def
      perform_def Let_def split: sum.splits prod.splits option.splits)

lemma make_symlinks_guarantee:
  "make_symlinks E tbl st = (r, st') \<Longrightarrow>
     allowedPaths st' = allowedPaths st \<and> appended (flush_call_allowed E (allowedPaths st)) st st'"
proof (induction tbl arbitrary: st)
  case Nil
  then show ?case by (simp add: appended_refl)
next
  case (Cons x tbl)
  obtain sp t where x: "x = (sp, t)" by (cases x)
  show ?case
  proof (cases "path_dirname E sp \<in> allowedPaths st \<and> path_dirname E t \<in> allowedPaths st")
    case False
    with Cons.prems x have "st' = st"
      by (auto simp: make_symlinks_step simp del: make_symlinks.simps split: if_splits)
    then show ?thesis by (simp add: appended_refl)
  next
    case True
    show ?thesis
    proof (cases "fs_stat E t (disk st)")
      case (Inl err)
      with Cons.prems x True have "st' = st\<lparr>calls := calls st @ [Stat t]\<rparr>"
        by (auto simp: make_symlinks_step simp del: make_symlinks.simps)
      with True show ?thesis by (simp add: appended_def)
    next
      case (Inr stats)
      define ty where "ty = (if isDirectory stats then ''junction'' else ''file'')"
      define st2 where "st2 = st\<lparr>disk := snd (fs_symlink E t sp ty (disk st)),
                           calls := calls st @ [Stat t, Symlink t sp ty]\<rparr>"
      have a2: "allowedPaths st2 = allowedPaths st" by (simp add: st2_def)
      have g: "appended (flush_call_allowed E (allowedPaths st)) st st2"
        using True by (simp add: appended_def st2_def)
      show ?thesis
      proof (cases "fst (fs_symlink E t sp ty (disk st))")
        case (Some e)
        with Cons.prems x True Inr have "st' = st2"
          by (auto simp: make_symlinks_step Let_def ty_def st2_def simp del: make_symlinks.simps)
        with a2 g show ?thesis by simp
      next
        case None
        with Cons.prems x True Inr have "make_symlinks E tbl st2 = (r, st')"
          by (auto simp: make_symlinks_step Let_def ty_def st2_def simp del: make_symlinks.simps)
        from Cons.IH[OF this] a2 g show ?thesis
          by (auto intro: appended_trans)
      qed
    qed
  qed
qed

lemma appended_mono: "appended P a b \<Longrightarrow> (\<And>c. P c \<Longrightarrow> Q c) \<Longrightarrow> appended Q a b"
  unfolding appended_def by blast

lemma flush_call_inside:
  "confined E R A \<Longrightarrow> flush_call_allowed E A c \<Longrightarrow> call_inside E R c"
  by (cases c) (auto dest: under_parent_allowed)


lemma resetAllowedPaths_eq: "resetAllowedPaths E st = st\<lparr>allowedPaths := root_set E\<rparr>"
  by (simp add: resetAllowedPaths_def root_set_def)

lemma make_root_dir:
  assumes "rawToFixture h c = Inr (''dir'', fc)"
  shows "Fixture_make (Suc n) E h (VString p) c None st =
    (let R = path_normalize E p in
     if path_dirname E R \<notin> root_set E
     then Some (Inl (IllegalPath (path_dirname E R) (root_set E)), st\<lparr>allowedPaths := root_set E\<rparr>)
     else
       (case fst (mkdirp E R (disk st)) of
          Some e \<Rightarrow> Some (Inl e, st\<lparr>allowedPaths := root_set E, disk := snd (mkdirp E R (disk st)),
                                calls := calls st @ [Mkdirp R]\<rparr>)
        | None \<Rightarrow>
           (let st3 = st\<lparr>disk := snd (mkdirp E R (disk st)),
                          calls := calls st @ [Mkdirp R], allowedPaths := {R}\<rparr>
            in case Object_entries h fc of
                 Inl e \<Rightarrow> Some (Inl e, st3)
               | Inr es \<Rightarrow>
                  (case make_entries (Fixture_make n E h) E R es [] st3 of
                     None \<Rightarrow> None
                   | Some (Inl e, st4) \<Rightarrow> Some (Inl e, st4)
                   | Some (Inr tbl, st4) \<Rightarrow>
                      (case make_symlinks E tbl st4 of
                         (Some e, st5) \<Rightarrow> Some (Inl e, st5)
                       | (None, st5) \<Rightarrow> Some (Inr tbl, st5))))))"
proof -
  let ?R = "path_normalize E p"
  note defs = make_body_def make_node_def resetAllowedPaths_eq checkIfPathIsAllowed_def
      perform_def Let_def
  show ?thesis
  proof (cases "path_dirname E ?R \<in> root_set E")
    case False
    with assms show ?thesis by (simp add: defs)
  next
    case True
    obtain e d where md: "mkdirp E ?R (disk st) = (e, d)" by (cases "mkdirp E ?R (disk st)")
    show ?thesis
    proof (cases e)
      case (Some err)
      with assms True md show ?thesis by (simp add: defs)
    next
      case None
      show ?thesis
      proof (cases "Object_entries h fc")
        case (Inl err)
        with assms True md None show ?thesis by (simp add: defs)
      next
        case (Inr es)
        let ?st3 = "st\<lparr>disk := d, calls := calls st @ [Mkdirp ?R], allowedPaths := {?R}\<rparr>"
        show ?thesis
        proof (cases "make_entries (Fixture_make n E h) E ?R es [] ?st3")
          case N: None
          with Inr assms True md None show ?thesis by (simp add: defs)
        next
          case S: (Some a)
          obtain r2 st2 where a: "a = (r2, st2)" by (cases a)
          with S Inr assms True md None show ?thesis
            by (cases r2) (simp_all add: defs)
        qed
      qed
    qed
  qed
qed

lemmas posix_simps = posix_def posix_normalize_def posix_dirname_def posix_join_def posix_resolve_def
  isAbsolute_def posix_mkdirp_def posix_writeFile_def posix_link_def posix_stat_def posix_symlink_def
  parent_is_directory_def disk0_def state0_def

lemma file_node:
  "Fixture_make (Suc n) E h (VString p) (VString data) (Some s) st =
     (if path_dirname E (path_normalize E p) \<in> allowedPaths st
      then (case fs_writeFile E (path_normalize E p) (VString data) (disk st) of
              (Some e, d) \<Rightarrow> Some (Inl e, st\<lparr>disk := d,
                  calls := calls st @ [WriteFile (path_normalize E p) (VString data)]\<rparr>)
            | (None, d) \<Rightarrow> Some (Inr s, st\<lparr>disk := d,
                  calls := calls st @ [WriteFile (path_normalize E p) (VString data)]\<rparr>))
      else Some (Inl (IllegalPath (path_dirname E (path_normalize E p)) (allowedPaths st)), st))"
  by (simp add: make_body_def make_node_def rawToFixture_def rawToType_def new_Fixture_def
      assertValidContent_def checkIfPathIsAllowed_def perform_def Let_def
      split: prod.splits option.splits)

text \<open>
  C3.  \<^verbatim>\<open>checkIfPathIsAllowed\<close> answers \<^verbatim>\<open>true\<close> exactly when the parent of the
  path, as \<^verbatim>\<open>path.dirname\<close> gives it, is an element of \<^verbatim>\<open>allowedPaths\<close>, and
  throws the illegal-path error in every other case, whatever else the set contains (an
  ancestor of the parent, a prefix of it).  A file is written at a path exactly when this
  test passes.
\<close>

theorem path_allowed_iff_parent_member:
  "(checkIfPathIsAllowed E p st = Inr True \<longleftrightarrow> path_dirname E p \<in> allowedPaths st)
   \<and> (path_dirname E p \<notin> allowedPaths st \<longrightarrow>
        checkIfPathIsAllowed E p st = Inl (IllegalPath (path_dirname E p) (allowedPaths st)))
   \<and> (path_dirname E (path_normalize E q) \<notin> allowedPaths st \<longrightarrow>
        Fixture_make (Suc n) E h (VString q) (VString data) (Some s) st
          = Some (Inl (IllegalPath (path_dirname E (path_normalize E q)) (allowedPaths st)), st))
   \<and> (path_dirname E (path_normalize E q) \<in> allowedPaths st \<longrightarrow>
        (\<exists>r d. Fixture_make (Suc n) E h (VString q) (VString data) (Some s) st
          = Some (r, st\<lparr>disk := d, calls := calls st @ [WriteFile (path_normalize E q) (VString data)]\<rparr>)))"
  by (auto simp: checkIfPathIsAllowed_def Let_def file_node simp del: Fixture_make.simps
      split: prod.splits option.splits)

text \<open>
  With \<^verbatim>\<open>/tmp/root\<close> allowed, a path in a subdirectory of it and a path in
  \<^verbatim>\<open>/tmp/rootx\<close> are refused, a path directly in it is accepted.
\<close>

theorem path_allowed_iff_parent_member_witness:
  "posix_dirname ''/tmp/root/sub/file'' \<notin> {''/tmp/root''}
   \<and> posix_dirname (posix_dirname ''/tmp/root/sub/file'') \<in> {''/tmp/root''}
   \<and> checkIfPathIsAllowed posix ''/tmp/root/sub/file'' (state0\<lparr>allowedPaths := {''/tmp/root''}\<rparr>)
       = Inl (IllegalPath ''/tmp/root/sub'' {''/tmp/root''})
   \<and> checkIfPathIsAllowed posix ''/tmp/rootx/file'' (state0\<lparr>allowedPaths := {''/tmp/root''}\<rparr>)
       = Inl (IllegalPath ''/tmp/rootx'' {''/tmp/root''})
   \<and> checkIfPathIsAllowed posix ''/tmp/root/file'' (state0\<lparr>allowedPaths := {''/tmp/root''}\<rparr>)
       = Inr True"
  using path_allowed_iff_parent_member[of posix "''/tmp/root/sub/file''"
      "state0\<lparr>allowedPaths := {''/tmp/root''}\<rparr>" "''/tmp/root/sub/file''" 0 "[]" "''x''" "[]"]
    path_allowed_iff_parent_member[of posix "''/tmp/rootx/file''"
      "state0\<lparr>allowedPaths := {''/tmp/root''}\<rparr>" "''/tmp/rootx/file''" 0 "[]" "''x''" "[]"]
    path_allowed_iff_parent_member[of posix "''/tmp/root/file''"
      "state0\<lparr>allowedPaths := {''/tmp/root''}\<rparr>" "''/tmp/root/file''" 0 "[]" "''x''" "[]"]
  by (simp add: posix_simps)

lemma walked_refl: "walked E st st"
  by (auto simp: walked_def intro: grows.same)

lemma walked_trans:
  assumes "walked E a b" and "walked E b c"
  shows "walked E a c"
proof -
  from assms obtain n1 n2 where
    1: "calls b = calls a @ n1" "\<forall>c\<in>set n1. is_walk_call c"
       "allowedPaths b \<subseteq> allowedPaths a \<union> {m. Mkdirp m \<in> set n1}"
    and 2: "calls c = calls b @ n2" "\<forall>c\<in>set n2. is_walk_call c"
       "allowedPaths c \<subseteq> allowedPaths b \<union> {m. Mkdirp m \<in> set n2}"
    unfolding walked_def by blast
  have "calls c = calls a @ (n1 @ n2)" using 1(1) 2(1) by simp
  moreover have "\<forall>c\<in>set (n1 @ n2). is_walk_call c" using 1(2) 2(2) by auto
  moreover have "allowedPaths c \<subseteq> allowedPaths a \<union> {m. Mkdirp m \<in> set (n1 @ n2)}"
    using 1(3) 2(3) by auto
  moreover have "grows E (allowedPaths a) (allowedPaths c)"
    using assms by (auto simp: walked_def intro: grows_trans)
  ultimately show ?thesis unfolding walked_def by blast
qed

lemma walked_call:
  "is_walk_call c \<Longrightarrow> walked E st (st\<lparr>disk := d, calls := calls st @ [c]\<rparr>)"
  by (auto simp: walked_def intro: grows.same)

lemma walked_mkdir:
  "path_dirname E p \<in> allowedPaths st \<Longrightarrow>
     walked E st (st\<lparr>disk := d, calls := calls st @ [Mkdirp p],
                    allowedPaths := insert p (allowedPaths st)\<rparr>)"
  by (auto simp: walked_def intro: grows.intros)

lemma make_walked:
  "Fixture_make n E h p c (Some s) st = Some (r, st') \<Longrightarrow> walked E st st'"
  by (rule make_guarantee[where G = "walked E"])
     (auto intro: walked_refl walked_trans walked_call walked_mkdir)

lemma entries_walked:
  "make_entries (Fixture_make n E h) E np es s st = Some (r, st') \<Longrightarrow> walked E st st'"
  by (rule make_entries_guarantee[where G = "walked E"])
     (auto intro: walked_refl walked_trans make_walked)

lemma entries_confined:
  assumes "make_entries (Fixture_make n E h) E np es s st = Some (r, st')"
  shows "confined E R (allowedPaths st) \<longrightarrow>
           confined E R (allowedPaths st') \<and> appended (call_inside E R) st st'"
  by (rule make_entries_guarantee[where G = "\<lambda>a b. confined E R (allowedPaths a) \<longrightarrow>
           confined E R (allowedPaths b) \<and> appended (call_inside E R) a b", OF _ _ _ assms])
     (auto intro: appended_refl appended_trans dest: make_confined)

lemma make_symlinks_inside:
  assumes "make_symlinks E tbl st = (r, st')" and "confined E R (allowedPaths st)"
  shows "allowedPaths st' = allowedPaths st \<and> appended (call_inside E R) st st'"
  using make_symlinks_guarantee[OF assms(1)] assms(2)
  by (auto intro: appended_mono flush_call_inside)


text \<open>A top-level call on a directory whose root has been created.\<close>

lemma root_dir_created:
  assumes fx: "rawToFixture h c = Inr (''dir'', fc)"
    and mk: "Fixture_make n E h (VString p) c None st = Some (r, st')"
    and par: "path_dirname E (path_normalize E p) \<in> root_set E"
    and md: "fst (mkdirp E (path_normalize E p) (disk st)) = None"
  shows "\<exists>new. calls st' = calls st @ Mkdirp (path_normalize E p) # new
           \<and> (\<forall>c\<in>set new. call_inside E (path_normalize E p) c)
           \<and> confined E (path_normalize E p) (allowedPaths st')
           \<and> grows E {path_normalize E p} (allowedPaths st')
           \<and> allowedPaths st' \<subseteq> insert (path_normalize E p) {m. Mkdirp m \<in> set new}"
proof -
  let ?R = "path_normalize E p"
  let ?st3 = "st\<lparr>disk := snd (mkdirp E ?R (disk st)), calls := calls st @ [Mkdirp ?R],
                 allowedPaths := {?R}\<rparr>"
  let ?goal = "\<lambda>s. \<exists>new. calls s = calls st @ Mkdirp ?R # new
           \<and> (\<forall>c\<in>set new. call_inside E ?R c)
           \<and> confined E ?R (allowedPaths s)
           \<and> grows E {?R} (allowedPaths s)
           \<and> allowedPaths s \<subseteq> insert ?R {m. Mkdirp m \<in> set new}"
  from mk obtain k where n: "n = Suc k" by (cases n) auto
  have c3: "confined E ?R (allowedPaths ?st3)" by (simp add: confined_def)
  have g3: "?goal ?st3" by (auto simp: confined_def intro: grows.same)
  have step: "?goal s" if w: "walked E ?st3 s"
      and c: "confined E ?R (allowedPaths s) \<and> appended (call_inside E ?R) ?st3 s" for s
  proof -
    from w obtain n1 where n1: "calls s = calls ?st3 @ n1"
      "allowedPaths s \<subseteq> allowedPaths ?st3 \<union> {m. Mkdirp m \<in> set n1}"
      "grows E (allowedPaths ?st3) (allowedPaths s)"
      unfolding walked_def by blast
    from c obtain n2 where n2: "calls s = calls ?st3 @ n2" "\<forall>c\<in>set n2. call_inside E ?R c"
      unfolding appended_def by blast
    from n1(1) n2(1) have "n1 = n2" by simp
    with n1 n2 c show ?thesis by auto
  qed
  show ?thesis
  proof (cases "Object_entries h fc")
    case (Inl e)
    with mk n fx par md have "st' = ?st3"
      by (simp add: make_root_dir Let_def del: Fixture_make.simps)
    with g3 show ?thesis by simp
  next
    case (Inr es)
    show ?thesis
    proof (cases "make_entries (Fixture_make k E h) E ?R es [] ?st3")
      case None
      with mk n fx par md Inr show ?thesis
        by (simp add: make_root_dir Let_def del: Fixture_make.simps)
    next
      case (Some a)
      obtain r4 st4 where a: "a = (r4, st4)" by (cases a)
      from entries_walked Some a have w4: "walked E ?st3 st4" by blast
      from entries_confined[of k E h ?R es "[]" ?st3 r4 st4 ?R] Some a c3
      have c4: "confined E ?R (allowedPaths st4) \<and> appended (call_inside E ?R) ?st3 st4"
        by simp
      have g4: "?goal st4" by (rule step[OF w4 c4])
      show ?thesis
      proof (cases r4)
        case (Inl e)
        with mk n fx par md Inr Some a have "st' = st4"
          by (simp add: make_root_dir Let_def del: Fixture_make.simps)
        with g4 show ?thesis by simp
      next
        case (Inr tbl)
        obtain r5 st5 where f: "make_symlinks E tbl st4 = (r5, st5)"
          by (cases "make_symlinks E tbl st4")
        with mk n fx par md \<open>Object_entries h fc = Inr es\<close> Some a Inr have s5: "st' = st5"
          by (cases r5) (simp_all add: make_root_dir Let_def del: Fixture_make.simps)
        from c4 have "confined E ?R (allowedPaths st4)" by simp
        from make_symlinks_inside[OF f this]
        have a5: "allowedPaths st5 = allowedPaths st4" and i5: "appended (call_inside E ?R) st4 st5"
          by simp_all
        from g4 obtain new where new: "calls st4 = calls st @ Mkdirp ?R # new"
           "\<forall>c\<in>set new. call_inside E ?R c" "confined E ?R (allowedPaths st4)"
           "grows E {?R} (allowedPaths st4)"
           "allowedPaths st4 \<subseteq> insert ?R {m. Mkdirp m \<in> set new}" by blast
        from i5 obtain n5 where n5: "calls st5 = calls st4 @ n5" "\<forall>c\<in>set n5. call_inside E ?R c"
          unfolding appended_def by blast
        have "calls st5 = calls st @ Mkdirp ?R # (new @ n5)" using new(1) n5(1) by simp
        moreover have "\<forall>c\<in>set (new @ n5). call_inside E ?R c" using new(2) n5(2) by auto
        moreover have "allowedPaths st5 \<subseteq> insert ?R {m. Mkdirp m \<in> set (new @ n5)}"
          using new(5) a5 by auto
        ultimately have "?goal st5" using new(3,4) a5 by metis
        with s5 show ?thesis by simp
      qed
    qed
  qed
qed


text \<open>
  C10.  In a top-level call on a directory fixture whose root \<open>R\<close> is created,
  \<^verbatim>\<open>allowedPaths\<close> at the end comes from \<open>{R}\<close> by adding paths one at a time, each
  when its parent is already in the set, and each added path was handed to
  \<^verbatim>\<open>mkdirp\<close>; so every member is \<open>R\<close> or lies inside \<open>R\<close>.  After the creation of
  the root, every path of every file-system call (directory, file, link, symlink and its
  target) lies inside \<open>R\<close>.
\<close>

theorem allowed_paths_inside_root:
  assumes "rawToFixture h c = Inr (''dir'', fc)"
    and "Fixture_make n E h (VString p) c None st = Some (r, st')"
    and "path_dirname E (path_normalize E p) \<in> root_set E"
    and "fst (mkdirp E (path_normalize E p) (disk st)) = None"
  shows "grows E {path_normalize E p} (allowedPaths st')
     \<and> (\<forall>m\<in>allowedPaths st'. m = path_normalize E p \<or> under E (path_normalize E p) m)
     \<and> (\<exists>new. calls st' = calls st @ Mkdirp (path_normalize E p) # new
           \<and> (\<forall>c\<in>set new. call_inside E (path_normalize E p) c)
           \<and> allowedPaths st' \<subseteq> insert (path_normalize E p) {m. Mkdirp m \<in> set new})"
  using root_dir_created[OF assms] unfolding confined_def by blast

lemma posix_under_intros:
  "posix_dirname p = R \<Longrightarrow> under posix R p"
  "under posix R (posix_dirname p) \<Longrightarrow> under posix R p"
  by (auto intro: under.intros simp: posix_def)

text \<open>The round trip of the specification, under the root \<^verbatim>\<open>/tmp/root\<close>.\<close>

theorem allowed_paths_inside_root_witness:
  "rawToFixture round_trip (VObject 0) = Inr (''dir'', VObject 0)
   \<and> Fixture_make 3 posix round_trip (VString ''/tmp/root'') (VObject 0) None state0
       = Some (Inr [],
           \<lparr>allowedPaths = {''/tmp/root/sub'', ''/tmp/root''},
            disk = [(''/'', Directory), (''/tmp'', Directory), (''/work'', Directory),
                    (''/tmp/root'', Directory),
                    (''/tmp/root/a.txt'', RegularFile (VString ''hello'')),
                    (''/tmp/root/sub'', Directory),
                    (''/tmp/root/sub/b.txt'', RegularFile (VString ''world''))],
            calls = [Mkdirp ''/tmp/root'', WriteFile ''/tmp/root/a.txt'' (VString ''hello''),
                     Mkdirp ''/tmp/root/sub'',
                     WriteFile ''/tmp/root/sub/b.txt'' (VString ''world'')]\<rparr>)
   \<and> path_dirname posix (path_normalize posix ''/tmp/root'') \<in> root_set posix
   \<and> fst (mkdirp posix (path_normalize posix ''/tmp/root'') (disk state0)) = None
   \<and> under posix ''/tmp/root'' ''/tmp/root/sub''"
proof -
  have 1: "rawToFixture round_trip (VObject 0) = Inr (''dir'', VObject 0)"
    by (simp add: round_trip_def rawToFixture_def rawToType_def new_Fixture_def
        assertValidContent_def validateDirContents_def)
  have 2: "Fixture_make 3 posix round_trip (VString ''/tmp/root'') (VObject 0) None state0
       = Some (Inr [],
           \<lparr>allowedPaths = {''/tmp/root/sub'', ''/tmp/root''},
            disk = [(''/'', Directory), (''/tmp'', Directory), (''/work'', Directory),
                    (''/tmp/root'', Directory),
                    (''/tmp/root/a.txt'', RegularFile (VString ''hello'')),
                    (''/tmp/root/sub'', Directory),
                    (''/tmp/root/sub/b.txt'', RegularFile (VString ''world''))],
            calls = [Mkdirp ''/tmp/root'', WriteFile ''/tmp/root/a.txt'' (VString ''hello''),
                     Mkdirp ''/tmp/root/sub'',
                     WriteFile ''/tmp/root/sub/b.txt'' (VString ''world'')]\<rparr>)"
    by code_simp
  have 3: "path_dirname posix (path_normalize posix ''/tmp/root'') \<in> root_set posix"
    by (simp add: posix_simps root_set_def)
  have 4: "fst (mkdirp posix (path_normalize posix ''/tmp/root'') (disk state0)) = None"
    by (simp add: posix_simps)
  have 5: "path_normalize posix ''/tmp/root'' = ''/tmp/root''"
    by (simp add: posix_simps)
  from allowed_paths_inside_root[OF 1 2 3 4] 1 2 3 4 show ?thesis
    by (simp add: 5)
qed






lemma link_node:
  "Fixture_make (Suc n) E h (VString p) (VFixture ''link'' (VString target)) (Some s) st =
     (let np = path_normalize E p; x = path_resolve E (path_dirname E np) target in
      if path_dirname E x \<notin> allowedPaths st
      then Some (Inl (IllegalPath (path_dirname E x) (allowedPaths st)), st)
      else if path_dirname E np \<notin> allowedPaths st
      then Some (Inl (IllegalPath (path_dirname E np) (allowedPaths st)), st)
      else (case fst (fs_link E x np (disk st)) of
              Some e \<Rightarrow> Some (Inl e, st\<lparr>disk := snd (fs_link E x np (disk st)),
                                        calls := calls st @ [Link x np]\<rparr>)
            | None \<Rightarrow> Some (Inr s, st\<lparr>disk := snd (fs_link E x np (disk st)),
                                        calls := calls st @ [Link x np]\<rparr>)))"
  by (simp add: make_body_def make_node_def rawToFixture_def checkIfPathIsAllowed_def
      perform_def Let_def split: prod.splits option.splits)


lemma not_under_not_allowed:
  "confined E R A \<Longrightarrow> \<not> under E R p \<Longrightarrow> path_dirname E p \<notin> A"
  by (auto dest: under_parent_allowed)

lemma root_dir_calls:
  assumes fx: "rawToFixture h c = Inr (''dir'', fc)"
    and mk: "Fixture_make n E h (VString p) c None st = Some (r, st')"
  shows "calls st' = calls st \<or> calls st' = calls st @ [Mkdirp (path_normalize E p)]
     \<or> (\<exists>new. calls st' = calls st @ Mkdirp (path_normalize E p) # new
           \<and> (\<forall>c\<in>set new. call_inside E (path_normalize E p) c))"
proof -
  let ?R = "path_normalize E p"
  from mk obtain k where n: "n = Suc k" by (cases n) auto
  show ?thesis
  proof (cases "path_dirname E ?R \<in> root_set E")
    case False
    with mk n fx have "calls st' = calls st"
      by (auto simp add: make_root_dir Let_def simp del: Fixture_make.simps)
    then show ?thesis by simp
  next
    case True
    show ?thesis
    proof (cases "fst (mkdirp E ?R (disk st))")
      case (Some e)
      with mk n fx True have "calls st' = calls st @ [Mkdirp ?R]"
        by (auto simp add: make_root_dir Let_def simp del: Fixture_make.simps)
      then show ?thesis by simp
    next
      case None
      from root_dir_created[OF fx mk True None] show ?thesis by blast
    qed
  qed
qed

text \<open>
  C1.  With every allowed path inside the root \<open>R\<close>: a hard-link node whose resolved
  target, or whose own path, does not lie inside \<open>R\<close> throws the illegal-path error and
  leaves the state as it was (no file-system call is issued); the last loop does the same
  for a pending symlink.  In a whole top-level call on a directory, every hard link and
  every symlink that is issued has its target and its own path inside the root.
\<close>

theorem link_outside_root_rejected:
  "(confined E R (allowedPaths st)
      \<and> (\<not> under E R (path_resolve E (path_dirname E (path_normalize E p)) target)
           \<or> \<not> under E R (path_normalize E p)) \<longrightarrow>
      (\<exists>d. Fixture_make (Suc n) E h (VString p) (VFixture ''link'' (VString target)) (Some s) st
             = Some (Inl (IllegalPath d (allowedPaths st)), st)))
   \<and> (confined E R (allowedPaths st) \<and> (\<not> under E R t \<or> \<not> under E R sp) \<longrightarrow>
      (\<exists>d. make_symlinks E ((sp, t) # rest) st = (Some (IllegalPath d (allowedPaths st)), st)))
   \<and> (rawToFixture h c = Inr (''dir'', fc)
      \<and> Fixture_make m E h (VString q) c None st = Some (r, st') \<longrightarrow>
      (\<exists>new. calls st' = calls st @ new
         \<and> (\<forall>x y. Link x y \<in> set new \<longrightarrow>
               under E (path_normalize E q) x \<and> under E (path_normalize E q) y)
         \<and> (\<forall>t y ty. Symlink t y ty \<in> set new \<longrightarrow>
               under E (path_normalize E q) t \<and> under E (path_normalize E q) y)))"
proof (intro conjI impI)
  assume a: "confined E R (allowedPaths st)
      \<and> (\<not> under E R (path_resolve E (path_dirname E (path_normalize E p)) target)
           \<or> \<not> under E R (path_normalize E p))"
  then have "path_dirname E (path_resolve E (path_dirname E (path_normalize E p)) target) \<notin> allowedPaths st
    \<or> path_dirname E (path_normalize E p) \<notin> allowedPaths st"
    by (auto dest: not_under_not_allowed)
  then show "\<exists>d. Fixture_make (Suc n) E h (VString p) (VFixture ''link'' (VString target)) (Some s) st
             = Some (Inl (IllegalPath d (allowedPaths st)), st)"
    by (auto simp add: link_node Let_def simp del: Fixture_make.simps)
next
  assume a: "confined E R (allowedPaths st) \<and> (\<not> under E R t \<or> \<not> under E R sp)"
  then have "path_dirname E t \<notin> allowedPaths st \<or> path_dirname E sp \<notin> allowedPaths st"
    by (auto dest: not_under_not_allowed)
  then show "\<exists>d. make_symlinks E ((sp, t) # rest) st = (Some (IllegalPath d (allowedPaths st)), st)"
    by (auto simp add: make_symlinks_step simp del: make_symlinks.simps)
next
  assume a: "rawToFixture h c = Inr (''dir'', fc)
      \<and> Fixture_make m E h (VString q) c None st = Some (r, st')"
  then have fx: "rawToFixture h c = Inr (''dir'', fc)"
    and mk: "Fixture_make m E h (VString q) c None st = Some (r, st')" by simp_all
  let ?Q = "path_normalize E q"
  let ?P = "\<lambda>new. (\<forall>x y. Link x y \<in> set new \<longrightarrow> under E ?Q x \<and> under E ?Q y)
         \<and> (\<forall>t y ty. Symlink t y ty \<in> set new \<longrightarrow> under E ?Q t \<and> under E ?Q y)"
  from root_dir_calls[OF fx mk] consider "calls st' = calls st @ []"
    | "calls st' = calls st @ [Mkdirp ?Q]"
    | new where "calls st' = calls st @ Mkdirp ?Q # new" "\<forall>c\<in>set new. call_inside E ?Q c"
    by auto
  then show "\<exists>new. calls st' = calls st @ new \<and> ?P new"
  proof cases
    case 1
    have "?P []" by simp
    with 1 show ?thesis by blast
  next
    case 2
    have "?P [Mkdirp ?Q]" by simp
    with 2 show ?thesis by blast
  next
    case 3
    from 3(2) have "?P (Mkdirp ?Q # new)" by fastforce
    with 3(1) show ?thesis by blast
  qed
qed

lemma escaped_not_under: "\<not> under posix ''/tmp/root'' ''/tmp/escaped.txt''"
proof -
  have "under posix ''/tmp/root'' p \<Longrightarrow> p \<noteq> ''/tmp/escaped.txt'' \<and> p \<noteq> ''/tmp'' \<and> p \<noteq> ''/''" for p
    by (induction rule: under.induct) (auto simp: posix_simps)
  then show ?thesis by blast
qed

text \<open>The link to \<^verbatim>\<open>../escaped.txt\<close> under the root \<^verbatim>\<open>/tmp/root\<close>.\<close>

theorem link_outside_root_rejected_witness:
  "confined posix ''/tmp/root'' {''/tmp/root''}
   \<and> \<not> under posix ''/tmp/root'' (posix_resolve ''/work'' (posix_dirname ''/tmp/root/link'') ''../escaped.txt'')
   \<and> Fixture_make (Suc 0) posix escaping_link (VString ''/tmp/root/link'')
        (VFixture ''link'' (VString ''../escaped.txt'')) (Some [])
        (state0\<lparr>allowedPaths := {''/tmp/root''}\<rparr>)
       = Some (Inl (IllegalPath ''/tmp'' {''/tmp/root''}), state0\<lparr>allowedPaths := {''/tmp/root''}\<rparr>)
   \<and> make_symlinks posix [(''/tmp/root/link'', ''/tmp/escaped.txt'')]
        (state0\<lparr>allowedPaths := {''/tmp/root''}\<rparr>)
       = (Some (IllegalPath ''/tmp'' {''/tmp/root''}), state0\<lparr>allowedPaths := {''/tmp/root''}\<rparr>)
   \<and> rawToFixture escaping_link (VObject 0) = Inr (''dir'', VObject 0)
   \<and> Fixture_make 2 posix escaping_link (VString ''/tmp/root'') (VObject 0) None state0
       = Some (Inl (IllegalPath ''/tmp'' {''/tmp/root''}),
           \<lparr>allowedPaths = {''/tmp/root''},
            disk = [(''/'', Directory), (''/tmp'', Directory), (''/work'', Directory),
                    (''/tmp/root'', Directory)],
            calls = [Mkdirp ''/tmp/root'']\<rparr>)"
proof -
  let ?st = "state0\<lparr>allowedPaths := {''/tmp/root''}\<rparr>"
  have c: "confined posix ''/tmp/root'' (allowedPaths ?st)"
    by (simp add: confined_def)
  have x: "path_resolve posix (path_dirname posix (path_normalize posix ''/tmp/root/link'')) ''../escaped.txt''
      = ''/tmp/escaped.txt''"
    by (simp add: posix_simps)
  have x': "posix_resolve ''/work'' (posix_dirname ''/tmp/root/link'') ''../escaped.txt'' = ''/tmp/escaped.txt''"
    by (simp add: posix_simps)
  have 1: "Fixture_make (Suc 0) posix escaping_link (VString ''/tmp/root/link'')
        (VFixture ''link'' (VString ''../escaped.txt'')) (Some []) ?st
       = Some (Inl (IllegalPath ''/tmp'' {''/tmp/root''}), ?st)"
    by code_simp
  have 2: "make_symlinks posix [(''/tmp/root/link'', ''/tmp/escaped.txt'')] ?st
       = (Some (IllegalPath ''/tmp'' {''/tmp/root''}), ?st)"
    by code_simp
  have 3: "rawToFixture escaping_link (VObject 0) = Inr (''dir'', VObject 0)"
    by (simp add: escaping_link_def rawToFixture_def rawToType_def new_Fixture_def
        assertValidContent_def validateDirContents_def)
  have 4: "Fixture_make 2 posix escaping_link (VString ''/tmp/root'') (VObject 0) None state0
       = Some (Inl (IllegalPath ''/tmp'' {''/tmp/root''}),
           \<lparr>allowedPaths = {''/tmp/root''},
            disk = [(''/'', Directory), (''/tmp'', Directory), (''/work'', Directory),
                    (''/tmp/root'', Directory)],
            calls = [Mkdirp ''/tmp/root'']\<rparr>)"
    by code_simp
  from link_outside_root_rejected[where E = posix and R = "''/tmp/root''" and st = ?st
      and p = "''/tmp/root/link''" and target = "''../escaped.txt''" and n = 0
      and h = escaping_link and s = "[]" and t = "''/tmp/escaped.txt''"
      and sp = "''/tmp/root/link''" and rest = "[]"]
    c escaped_not_under x x' 1 2 3 4
  show ?thesis by (simp add: confined_def)
qed


lemma with_table_simps [simp]:
  "with_table s None = None"
  "with_table s (Some (Inl e, st)) = Some (Inl e, st)"
  "with_table s (Some (Inr s', st)) = Some (Inr s, st)"
  by (simp_all add: with_table_def)






















lemma make_root_reset:
  "Fixture_make n E h pv c None (st\<lparr>allowedPaths := A\<rparr>) =
     (case pv of
        VString p \<Rightarrow>
          (case rawToFixture h c of
             Inl e \<Rightarrow> (if n = 0 then None else Some (Inl e, st\<lparr>allowedPaths := A\<rparr>))
           | Inr f \<Rightarrow> Fixture_make n E h pv c None (st\<lparr>allowedPaths := root_set E\<rparr>))
      | _ \<Rightarrow> (if n = 0 then None else Some (Inl PathNotString, st\<lparr>allowedPaths := A\<rparr>)))"
  by (cases n) (auto simp: make_body_def resetAllowedPaths_eq Let_def split: val.splits sum.splits)

lemma nested_dir:
  assumes "rawToFixture h c = Inr (''dir'', fc)"
    and "path_dirname E (path_normalize E p) \<in> allowedPaths st"
    and "mkdirp E (path_normalize E p) (disk st) = (None, d)"
    and "Object_entries h fc = Inr es"
  shows "Fixture_make (Suc n) E h (VString p) c (Some s) st =
     make_entries (Fixture_make n E h) E (path_normalize E p) es s
       (st\<lparr>disk := d, calls := calls st @ [Mkdirp (path_normalize E p)],
           allowedPaths := insert (path_normalize E p) (allowedPaths st)\<rparr>)"
proof -
  let ?R = "path_normalize E p"
  let ?st3 = "st\<lparr>disk := d, calls := calls st @ [Mkdirp ?R],
           allowedPaths := insert ?R (allowedPaths st)\<rparr>"
  note defs = make_body_def make_node_def checkIfPathIsAllowed_def perform_def Let_def
  show ?thesis
  proof (cases "make_entries (Fixture_make n E h) E ?R es s ?st3")
    case None
    with assms show ?thesis by (simp add: defs)
  next
    case (Some a)
    obtain r2 st2 where "a = (r2, st2)" by (cases a)
    with Some assms show ?thesis by (cases r2) (simp_all add: defs)
  qed
qed

text \<open>
  C2 (as amended).  A top-level call whose content fails validation throws before
  \<^verbatim>\<open>allowedPaths\<close> is touched.  Otherwise the call behaves as if
  \<^verbatim>\<open>allowedPaths\<close> had been the working directory and the temporary directory,
  whatever it was before: a root directory whose parent is neither of the two is refused
  without a file-system call, even if that parent was in the set; once the root directory
  is created, its entries are materialised with \<^verbatim>\<open>allowedPaths\<close> being exactly the
  root.  A directory below the root adds its path to the set.
\<close>

theorem allowed_paths_reset_and_collapse:
  "(rawToFixture h c = Inl e \<longrightarrow>
      Fixture_make (Suc n) E h (VString p) c None (st\<lparr>allowedPaths := A\<rparr>)
        = Some (Inl e, st\<lparr>allowedPaths := A\<rparr>))
   \<and> (rawToFixture h c = Inr f \<longrightarrow>
      Fixture_make n E h (VString p) c None (st\<lparr>allowedPaths := A\<rparr>)
        = Fixture_make n E h (VString p) c None (st\<lparr>allowedPaths := {process_cwd E, os_tmpdir E}\<rparr>))
   \<and> (rawToFixture h c = Inr (''dir'', fc)
        \<and> path_dirname E (path_normalize E p) \<notin> {process_cwd E, os_tmpdir E} \<longrightarrow>
      Fixture_make (Suc n) E h (VString p) c None (st\<lparr>allowedPaths := A\<rparr>)
        = Some (Inl (IllegalPath (path_dirname E (path_normalize E p)) {process_cwd E, os_tmpdir E}),
                st\<lparr>allowedPaths := {process_cwd E, os_tmpdir E}\<rparr>))
   \<and> (rawToFixture h c = Inr (''dir'', fc)
        \<and> path_dirname E (path_normalize E p) \<in> {process_cwd E, os_tmpdir E}
        \<and> mkdirp E (path_normalize E p) (disk st) = (None, d)
        \<and> Object_entries h fc = Inr es \<longrightarrow>
      Fixture_make (Suc n) E h (VString p) c None (st\<lparr>allowedPaths := A\<rparr>)
        = (case make_entries (Fixture_make n E h) E (path_normalize E p) es []
                  (st\<lparr>disk := d, calls := calls st @ [Mkdirp (path_normalize E p)],
                      allowedPaths := {path_normalize E p}\<rparr>) of
             None \<Rightarrow> None
           | Some (Inl e, st4) \<Rightarrow> Some (Inl e, st4)
           | Some (Inr tbl, st4) \<Rightarrow>
               (case make_symlinks E tbl st4 of
                  (Some e, st5) \<Rightarrow> Some (Inl e, st5)
                | (None, st5) \<Rightarrow> Some (Inr tbl, st5))))
   \<and> (rawToFixture h c = Inr (''dir'', fc)
        \<and> path_dirname E (path_normalize E p) \<in> A
        \<and> mkdirp E (path_normalize E p) (disk st) = (None, d)
        \<and> Object_entries h fc = Inr es \<longrightarrow>
      Fixture_make (Suc n) E h (VString p) c (Some s) (st\<lparr>allowedPaths := A\<rparr>)
        = make_entries (Fixture_make n E h) E (path_normalize E p) es s
            (st\<lparr>disk := d, calls := calls st @ [Mkdirp (path_normalize E p)],
                allowedPaths := insert (path_normalize E p) A\<rparr>))"
proof -
  have rs: "{process_cwd E, os_tmpdir E} = root_set E" by (auto simp: root_set_def)
  show ?thesis
    unfolding rs
  proof (intro conjI impI)
    assume "rawToFixture h c = Inl e"
    then show "Fixture_make (Suc n) E h (VString p) c None (st\<lparr>allowedPaths := A\<rparr>)
        = Some (Inl e, st\<lparr>allowedPaths := A\<rparr>)"
      by (simp add: make_body_def)
  next
    assume "rawToFixture h c = Inr f"
    then show "Fixture_make n E h (VString p) c None (st\<lparr>allowedPaths := A\<rparr>)
        = Fixture_make n E h (VString p) c None (st\<lparr>allowedPaths := root_set E\<rparr>)"
      by (subst make_root_reset) simp
  next
    assume "rawToFixture h c = Inr (''dir'', fc) \<and> path_dirname E (path_normalize E p) \<notin> root_set E"
    then show "Fixture_make (Suc n) E h (VString p) c None (st\<lparr>allowedPaths := A\<rparr>)
        = Some (Inl (IllegalPath (path_dirname E (path_normalize E p)) (root_set E)),
                st\<lparr>allowedPaths := root_set E\<rparr>)"
      by (simp add: make_root_dir Let_def del: Fixture_make.simps)
  next
    assume "rawToFixture h c = Inr (''dir'', fc)
        \<and> path_dirname E (path_normalize E p) \<in> root_set E
        \<and> mkdirp E (path_normalize E p) (disk st) = (None, d)
        \<and> Object_entries h fc = Inr es"
    then show "Fixture_make (Suc n) E h (VString p) c None (st\<lparr>allowedPaths := A\<rparr>)
        = (case make_entries (Fixture_make n E h) E (path_normalize E p) es []
                  (st\<lparr>disk := d, calls := calls st @ [Mkdirp (path_normalize E p)],
                      allowedPaths := {path_normalize E p}\<rparr>) of
             None \<Rightarrow> None
           | Some (Inl e, st4) \<Rightarrow> Some (Inl e, st4)
           | Some (Inr tbl, st4) \<Rightarrow>
               (case make_symlinks E tbl st4 of
                  (Some e, st5) \<Rightarrow> Some (Inl e, st5)
                | (None, st5) \<Rightarrow> Some (Inr tbl, st5)))"
      by (simp add: make_root_dir Let_def del: Fixture_make.simps)
  next
    assume "rawToFixture h c = Inr (''dir'', fc)
        \<and> path_dirname E (path_normalize E p) \<in> A
        \<and> mkdirp E (path_normalize E p) (disk st) = (None, d)
        \<and> Object_entries h fc = Inr es"
    then show "Fixture_make (Suc n) E h (VString p) c (Some s) (st\<lparr>allowedPaths := A\<rparr>)
        = make_entries (Fixture_make n E h) E (path_normalize E p) es s
            (st\<lparr>disk := d, calls := calls st @ [Mkdirp (path_normalize E p)],
                allowedPaths := insert (path_normalize E p) A\<rparr>)"
      using nested_dir[of h c fc E p "st\<lparr>allowedPaths := A\<rparr>" d es n s]
      by (simp del: Fixture_make.simps)
  qed
qed

text \<open>
  The claim as stated fails for a top-level call on a mapping that contains itself (the
  repository tests it through \<^verbatim>\<open>testDir\<close>): the call throws in
  \<^verbatim>\<open>rawToFixture\<close>, and \<^verbatim>\<open>allowedPaths\<close> keeps what an earlier call left in
  it.
\<close>

theorem allowed_paths_reset_counterexample:
  "Fixture_make 1 posix self_cycle (VString ''/tmp/root'') (VObject 0) None
      (state0\<lparr>allowedPaths := {''/elsewhere''}\<rparr>)
     = Some (Inl (CycleDetected ''self''), state0\<lparr>allowedPaths := {''/elsewhere''}\<rparr>)
   \<and> allowedPaths (state0\<lparr>allowedPaths := {''/elsewhere''}\<rparr>) \<noteq> {process_cwd posix, os_tmpdir posix}"
  by (simp add: self_cycle_def make_body_def rawToFixture_def rawToType_def new_Fixture_def
      assertValidContent_def validateDirContents_def posix_def)

theorem allowed_paths_reset_and_collapse_witness:
  "rawToFixture self_cycle (VObject 0) = Inl (CycleDetected ''self'')
   \<and> rawToFixture round_trip (VObject 0) = Inr (''dir'', VObject 0)
   \<and> path_dirname posix (path_normalize posix ''/elsewhere/root'') \<notin> {process_cwd posix, os_tmpdir posix}
   \<and> path_dirname posix (path_normalize posix ''/elsewhere/root'') \<in> {''/elsewhere''}
   \<and> Fixture_make (Suc 2) posix round_trip (VString ''/elsewhere/root'') (VObject 0) None
        (state0\<lparr>allowedPaths := {''/elsewhere''}\<rparr>)
       = Some (Inl (IllegalPath ''/elsewhere'' {''/work'', ''/tmp''}),
               state0\<lparr>allowedPaths := {''/work'', ''/tmp''}\<rparr>)
   \<and> path_dirname posix (path_normalize posix ''/tmp/root'') \<in> {process_cwd posix, os_tmpdir posix}
   \<and> fst (mkdirp posix (path_normalize posix ''/tmp/root'') (disk state0)) = None
   \<and> Object_entries round_trip (VObject 0) = Inr (round_trip ! 0)
   \<and> Fixture_make (Suc 2) posix round_trip (VString ''/tmp/root'') (VObject 0) None
        (state0\<lparr>allowedPaths := {''/elsewhere''}\<rparr>)
       = Fixture_make (Suc 2) posix round_trip (VString ''/tmp/root'') (VObject 0) None
        (state0\<lparr>allowedPaths := {''/work'', ''/tmp''}\<rparr>)"
proof -
  have 1: "rawToFixture self_cycle (VObject 0) = Inl (CycleDetected ''self'')"
    by (simp add: self_cycle_def rawToFixture_def rawToType_def new_Fixture_def
        assertValidContent_def validateDirContents_def)
  have 2: "rawToFixture round_trip (VObject 0) = Inr (''dir'', VObject 0)"
    by (simp add: round_trip_def rawToFixture_def rawToType_def new_Fixture_def
        assertValidContent_def validateDirContents_def)
  have 3: "path_dirname posix (path_normalize posix ''/elsewhere/root'') = ''/elsewhere''"
    by (simp add: posix_simps)
  have 4: "path_dirname posix (path_normalize posix ''/tmp/root'') = ''/tmp''"
    by (simp add: posix_simps)
  have 5: "fst (mkdirp posix (path_normalize posix ''/tmp/root'') (disk state0)) = None"
    by (simp add: posix_simps)
  have 6: "Object_entries round_trip (VObject 0) = Inr (round_trip ! 0)"
    by (simp add: round_trip_def)
  have 7: "process_cwd posix = ''/work''" "os_tmpdir posix = ''/tmp''"
    by (simp_all add: posix_def)
  from allowed_paths_reset_and_collapse[where h = round_trip and c = "VObject 0" and n = 2
      and E = posix and p = "''/elsewhere/root''" and st = state0 and A = "{''/elsewhere''}"
      and f = "(''dir'', VObject 0)" and fc = "VObject 0"]
    allowed_paths_reset_and_collapse[where h = round_trip and c = "VObject 0" and n = "Suc 2"
      and E = posix and p = "''/tmp/root''" and st = state0 and A = "{''/elsewhere''}"
      and f = "(''dir'', VObject 0)" and fc = "VObject 0"]
    1 2 3 4 5 6 7
  show ?thesis by (simp del: Fixture_make.simps)
qed

lemma broken_fails:
  "Fixture_make 2 posix broken (VString ''/tmp/root'') (VObject 0) None state0
     = Some (Inl FixtureNotInSubdirectory,
         \<lparr>allowedPaths = {''/tmp/root''},
          disk = [(''/'', Directory), (''/tmp'', Directory), (''/work'', Directory),
                  (''/tmp/root'', Directory)],
          calls = [Mkdirp ''/tmp/root'', Stat ''/tmp/root/does-not-exist'']\<rparr>)"
  by code_simp

text \<open>
  C7.  For a pending symlink the last loop first checks both paths and throws the
  illegal-path error, without a file-system call, when one is refused; then it asks
  \<^verbatim>\<open>stat\<close> for the target and throws when the target does not exist, without
  creating a symlink and without going on to the remaining symlinks; otherwise it creates
  the symlink, of type \<^verbatim>\<open>junction\<close> when the target is a directory and of type
  \<^verbatim>\<open>file\<close> when it is not.  An error of the loop is the error of the top-level
  call.
\<close>

theorem symlink_flush_checks:
  "(path_dirname E sp \<notin> allowedPaths st \<or> path_dirname E t \<notin> allowedPaths st \<longrightarrow>
      make_symlinks E ((sp, t) # rest) st
        = (Some (IllegalPath (if path_dirname E sp \<notin> allowedPaths st then path_dirname E sp
                              else path_dirname E t) (allowedPaths st)), st))
   \<and> (path_dirname E sp \<in> allowedPaths st \<and> path_dirname E t \<in> allowedPaths st
        \<and> fs_stat E t (disk st) = Inl (SystemError ''ENOENT'') \<longrightarrow>
      make_symlinks E ((sp, t) # rest) st
        = (Some FixtureNotInSubdirectory, st\<lparr>calls := calls st @ [Stat t]\<rparr>))
   \<and> (path_dirname E sp \<in> allowedPaths st \<and> path_dirname E t \<in> allowedPaths st
        \<and> fs_stat E t (disk st) = Inr stats
        \<and> fs_symlink E t sp (if isDirectory stats then ''junction'' else ''file'') (disk st) = (res, d) \<longrightarrow>
      make_symlinks E ((sp, t) # rest) st
        = (case res of
             Some e \<Rightarrow> (Some e, st\<lparr>disk := d, calls := calls st @
                 [Stat t, Symlink t sp (if isDirectory stats then ''junction'' else ''file'')]\<rparr>)
           | None \<Rightarrow> make_symlinks E rest (st\<lparr>disk := d, calls := calls st @
                 [Stat t, Symlink t sp (if isDirectory stats then ''junction'' else ''file'')]\<rparr>)))
   \<and> (rawToFixture h c = Inr f
        \<and> make_node (Fixture_make n E h) E h True (path_normalize E p) f [] (resetAllowedPaths E st)
            = Some (Inr tbl, st2)
        \<and> make_symlinks E tbl st2 = (Some e, st3) \<longrightarrow>
      Fixture_make (Suc n) E h (VString p) c None st = Some (Inl e, st3))
   \<and> Fixture_make 2 posix broken (VString ''/tmp/root'') (VObject 0) None state0
       = Some (Inl FixtureNotInSubdirectory,
           \<lparr>allowedPaths = {''/tmp/root''},
            disk = [(''/'', Directory), (''/tmp'', Directory), (''/work'', Directory),
                    (''/tmp/root'', Directory)],
            calls = [Mkdirp ''/tmp/root'', Stat ''/tmp/root/does-not-exist'']\<rparr>)"
proof (intro conjI impI)
  assume "path_dirname E sp \<notin> allowedPaths st \<or> path_dirname E t \<notin> allowedPaths st"
  then show "make_symlinks E ((sp, t) # rest) st
        = (Some (IllegalPath (if path_dirname E sp \<notin> allowedPaths st then path_dirname E sp
                              else path_dirname E t) (allowedPaths st)), st)"
    by (auto simp add: make_symlinks_step simp del: make_symlinks.simps)
next
  assume "path_dirname E sp \<in> allowedPaths st \<and> path_dirname E t \<in> allowedPaths st
        \<and> fs_stat E t (disk st) = Inl (SystemError ''ENOENT'')"
  then show "make_symlinks E ((sp, t) # rest) st
        = (Some FixtureNotInSubdirectory, st\<lparr>calls := calls st @ [Stat t]\<rparr>)"
    by (simp add: make_symlinks_step del: make_symlinks.simps)
next
  assume "path_dirname E sp \<in> allowedPaths st \<and> path_dirname E t \<in> allowedPaths st
        \<and> fs_stat E t (disk st) = Inr stats
        \<and> fs_symlink E t sp (if isDirectory stats then ''junction'' else ''file'') (disk st) = (res, d)"
  then show "make_symlinks E ((sp, t) # rest) st
        = (case res of
             Some e \<Rightarrow> (Some e, st\<lparr>disk := d, calls := calls st @
                 [Stat t, Symlink t sp (if isDirectory stats then ''junction'' else ''file'')]\<rparr>)
           | None \<Rightarrow> make_symlinks E rest (st\<lparr>disk := d, calls := calls st @
                 [Stat t, Symlink t sp (if isDirectory stats then ''junction'' else ''file'')]\<rparr>))"
    by (cases res) (simp_all add: make_symlinks_step Let_def del: make_symlinks.simps)
next
  assume "rawToFixture h c = Inr f
        \<and> make_node (Fixture_make n E h) E h True (path_normalize E p) f [] (resetAllowedPaths E st)
            = Some (Inr tbl, st2)
        \<and> make_symlinks E tbl st2 = (Some e, st3)"
  then show "Fixture_make (Suc n) E h (VString p) c None st = Some (Inl e, st3)"
    by (simp add: make_body_def Let_def)
next
  show "Fixture_make 2 posix broken (VString ''/tmp/root'') (VObject 0) None state0
       = Some (Inl FixtureNotInSubdirectory,
           \<lparr>allowedPaths = {''/tmp/root''},
            disk = [(''/'', Directory), (''/tmp'', Directory), (''/work'', Directory),
                    (''/tmp/root'', Directory)],
            calls = [Mkdirp ''/tmp/root'', Stat ''/tmp/root/does-not-exist'']\<rparr>)"
    by (rule broken_fails)
qed

theorem symlink_flush_checks_witness:
  "path_dirname posix ''/tmp/escaped.txt'' \<notin> allowedPaths after_walk
   \<and> make_symlinks posix [(''/tmp/root/link'', ''/tmp/escaped.txt'')] after_walk
       = (Some (IllegalPath ''/tmp'' {''/tmp/root''}), after_walk)
   \<and> path_dirname posix ''/tmp/root/link'' \<in> allowedPaths after_walk
   \<and> path_dirname posix ''/tmp/root/missing'' \<in> allowedPaths after_walk
   \<and> fs_stat posix ''/tmp/root/missing'' (disk after_walk) = Inl (SystemError ''ENOENT'')
   \<and> make_symlinks posix [(''/tmp/root/link'', ''/tmp/root/missing'')] after_walk
       = (Some FixtureNotInSubdirectory, after_walk\<lparr>calls := [Stat ''/tmp/root/missing'']\<rparr>)
   \<and> fs_stat posix ''/tmp/root/sibling'' (disk after_walk) = Inr (Stats True)
   \<and> calls (snd (make_symlinks posix [(''/tmp/root/link'', ''/tmp/root/sibling'')] after_walk))
       = [Stat ''/tmp/root/sibling'', Symlink ''/tmp/root/sibling'' ''/tmp/root/link'' ''junction'']
   \<and> fs_stat posix ''/tmp/root/f.txt'' (disk after_walk) = Inr (Stats False)
   \<and> calls (snd (make_symlinks posix [(''/tmp/root/link'', ''/tmp/root/f.txt'')] after_walk))
       = [Stat ''/tmp/root/f.txt'', Symlink ''/tmp/root/f.txt'' ''/tmp/root/link'' ''file'']"
proof -
  note ev = posix_simps after_walk_def
  have a: "path_dirname posix ''/tmp/escaped.txt'' \<notin> allowedPaths after_walk"
     "path_dirname posix ''/tmp/root/link'' \<in> allowedPaths after_walk"
     "path_dirname posix ''/tmp/root/missing'' \<in> allowedPaths after_walk"
     "path_dirname posix ''/tmp/root/sibling'' \<in> allowedPaths after_walk"
     "path_dirname posix ''/tmp/root/f.txt'' \<in> allowedPaths after_walk"
    by (simp_all add: ev)
  have b: "fs_stat posix ''/tmp/root/missing'' (disk after_walk) = Inl (SystemError ''ENOENT'')"
     "fs_stat posix ''/tmp/root/sibling'' (disk after_walk) = Inr (Stats True)"
     "fs_stat posix ''/tmp/root/f.txt'' (disk after_walk) = Inr (Stats False)"
    by (simp_all add: ev)
  have c: "fs_symlink posix ''/tmp/root/sibling'' ''/tmp/root/link''
        (if isDirectory (Stats True) then ''junction'' else ''file'') (disk after_walk)
      = (None, disk after_walk @ [(''/tmp/root/link'', SymbolicLink ''/tmp/root/sibling'' ''junction'')])"
     "fs_symlink posix ''/tmp/root/f.txt'' ''/tmp/root/link''
        (if isDirectory (Stats False) then ''junction'' else ''file'') (disk after_walk)
      = (None, disk after_walk @ [(''/tmp/root/link'', SymbolicLink ''/tmp/root/f.txt'' ''file'')])"
    by (simp_all add: ev)
  have d: "allowedPaths after_walk = {''/tmp/root''}" "calls after_walk = []"
    by (simp_all add: after_walk_def)
  have e: "path_dirname posix ''/tmp/escaped.txt'' = ''/tmp''" by (simp add: ev)
  from symlink_flush_checks[where E = posix and sp = "''/tmp/root/link''" and st = after_walk
      and t = "''/tmp/escaped.txt''" and rest = "[]"]
    a(1,2)
  have 1: "make_symlinks posix [(''/tmp/root/link'', ''/tmp/escaped.txt'')] after_walk
       = (Some (IllegalPath ''/tmp'' {''/tmp/root''}), after_walk)"
    by (simp add: d e del: make_symlinks.simps Fixture_make.simps)
  from symlink_flush_checks[where E = posix and sp = "''/tmp/root/link''" and st = after_walk
      and t = "''/tmp/root/missing''" and rest = "[]"]
    a(2,3) b(1)
  have 2: "make_symlinks posix [(''/tmp/root/link'', ''/tmp/root/missing'')] after_walk
       = (Some FixtureNotInSubdirectory, after_walk\<lparr>calls := [Stat ''/tmp/root/missing'']\<rparr>)"
    by (simp add: d del: make_symlinks.simps Fixture_make.simps)
  from symlink_flush_checks[where E = posix and sp = "''/tmp/root/link''" and st = after_walk
      and t = "''/tmp/root/sibling''" and rest = "[]" and stats = "Stats True" and res = None
      and d = "disk after_walk @ [(''/tmp/root/link'', SymbolicLink ''/tmp/root/sibling'' ''junction'')]"]
    a(2,4) b(2) c(1)
  have 3: "calls (snd (make_symlinks posix [(''/tmp/root/link'', ''/tmp/root/sibling'')] after_walk))
       = [Stat ''/tmp/root/sibling'', Symlink ''/tmp/root/sibling'' ''/tmp/root/link'' ''junction'']"
    by (simp add: d del: make_symlinks.simps(2) Fixture_make.simps)
  from symlink_flush_checks[where E = posix and sp = "''/tmp/root/link''" and st = after_walk
      and t = "''/tmp/root/f.txt''" and rest = "[]" and stats = "Stats False" and res = None
      and d = "disk after_walk @ [(''/tmp/root/link'', SymbolicLink ''/tmp/root/f.txt'' ''file'')]"]
    a(2,5) b(3) c(2)
  have 4: "calls (snd (make_symlinks posix [(''/tmp/root/link'', ''/tmp/root/f.txt'')] after_walk))
       = [Stat ''/tmp/root/f.txt'', Symlink ''/tmp/root/f.txt'' ''/tmp/root/link'' ''file'']"
    by (simp add: d del: make_symlinks.simps(2) Fixture_make.simps)
  from a b 1 2 3 4 show ?thesis by simp
qed

section \<open>The asynchronous module against the synchronous one\<close>

lemma async_rawToType_eq: "async_rawToType v = rawToType v"
  by (simp add: async_rawToType_def rawToType_def)

lemma async_validateDirContents_loop_eq:
  "async_validateDirContents_loop h es seen = validateDirContents_loop h es seen"
proof (induction h es seen rule: validateDirContents_loop.induct)
  case (1 h seen)
  show ?case by simp
next
  case (2 h dirName dirContent rest seen)
  show ?case
  proof (cases "rawToType dirContent")
    case (Inl e)
    then show ?thesis by (simp add: async_rawToType_eq)
  next
    case (Inr ct)
    show ?thesis
    proof (cases "ct = ''dir'' \<and> typeof dirContent = ''object'' \<and> \<not> instanceof_Fixture dirContent")
      case False
      with Inr "2.IH"(3)[OF Inr False] show ?thesis
        by (auto simp add: async_rawToType_eq)
    next
      case True
      show ?thesis
      proof (cases "dirContent \<in> seen")
        case s: True
        with True Inr show ?thesis by (simp add: async_rawToType_eq)
      next
        case ns: False
        show ?thesis
        proof (cases "Object_entries h dirContent")
          case (Inl e)
          with True ns Inr show ?thesis by (simp add: async_rawToType_eq)
        next
          case es: (Inr es)
          note ih1 = "2.IH"(1)[OF Inr True ns es]
          show ?thesis
          proof (cases "validateDirContents_loop h es (insert dirContent seen)")
            case (Inl e)
            with True ns Inr es ih1 show ?thesis by (simp add: async_rawToType_eq)
          next
            case s1: (Inr s1)
            from "2.IH"(2)[OF Inr True ns es s1] True ns Inr es ih1 s1 show ?thesis
              by (simp add: async_rawToType_eq)
          qed
        qed
      qed
    qed
  qed
qed

lemma async_validateDirContents_eq:
  "async_validateDirContents h c seen = validateDirContents h c seen"
  by (simp add: async_validateDirContents_def validateDirContents_def
      async_validateDirContents_loop_eq cong: sum.case_cong)

lemma async_assertValidContent_eq: "async_assertValidContent h t c = assertValidContent h t c"
  by (simp add: async_assertValidContent_def assertValidContent_def async_validateDirContents_eq)

lemma new_FixtureAsync_eq: "new_FixtureAsync h t c = new_Fixture h t c"
  by (simp add: new_FixtureAsync_def new_Fixture_def async_assertValidContent_eq)

lemma async_rawToFixture_eq: "async_rawToFixture h c = rawToFixture h c"
  by (simp add: async_rawToFixture_def rawToFixture_def async_rawToType_eq new_FixtureAsync_eq
      cong: val.case_cong sum.case_cong)

lemma async_checkIfPathIsAllowed_eq: "async_checkIfPathIsAllowed E p st = checkIfPathIsAllowed E p st"
  by (simp add: async_checkIfPathIsAllowed_def checkIfPathIsAllowed_def)

lemma async_getSymLinkTargetType_eq: "async_getSymLinkTargetType E p st = getSymLinkTargetType E p st"
  by (simp add: async_getSymLinkTargetType_def getSymLinkTargetType_def
      async_checkIfPathExists_def checkIfPathExists_def)

lemma async_make_symlinks_eq: "async_make_symlinks E tbl st = make_symlinks E tbl st"
proof (induction tbl arbitrary: st)
  case Nil
  show ?case by simp
next
  case (Cons x tbl)
  obtain sp t where x: "x = (sp, t)" by (cases x)
  show ?case
    unfolding x
    by (simp add: async_checkIfPathIsAllowed_eq async_getSymLinkTargetType_eq Cons.IH
        cong: sum.case_cong prod.case_cong option.case_cong)
qed

lemma async_make_entries_eq: "async_make_entries mk E np es s st = make_entries mk E np es s st"
proof (induction es arbitrary: s st)
  case Nil
  show ?case by simp
next
  case (Cons x es)
  obtain name nested where x: "x = (name, nested)" by (cases x)
  show ?case
    unfolding x
    by (simp add: Cons.IH cong: sum.case_cong prod.case_cong option.case_cong)
qed

lemma async_make_node_eq: "async_make_node mk E h isRoot np f s st = make_node mk E h isRoot np f s st"
  by (simp add: async_make_node_def make_node_def async_checkIfPathIsAllowed_eq
      async_make_entries_eq
      cong: sum.case_cong prod.case_cong option.case_cong val.case_cong if_cong)

lemma async_make_body_eq:
  "async_make_body mk E h pathIn content symlinks st = make_body mk E h pathIn content symlinks st"
  by (simp add: async_make_body_def make_body_def async_rawToFixture_eq async_make_node_eq
      async_make_symlinks_eq async_resetAllowedPaths_def resetAllowedPaths_def
      cong: sum.case_cong prod.case_cong option.case_cong val.case_cong if_cong)

lemma FixtureAsync_make_eq: "FixtureAsync_make n E h = Fixture_make n E h"
proof (induction n)
  case 0
  show ?case by (intro ext) simp
next
  case (Suc n)
  show ?case by (intro ext) (simp add: Suc async_make_body_eq)
qed

lemma counterpart_seen:
  "seen_by Asynchronous (counterpart x) h = seen_by Synchronous x h"
  "entries_seen_by Asynchronous (counterpart_entries es) h = entries_seen_by Synchronous es h"
  by (induction x and es arbitrary: h and h rule: counterpart_counterpart_entries.induct) simp_all

lemma instance_free_seen:
  "instance_free x \<Longrightarrow> seen_by Asynchronous x h = seen_by Synchronous x h"
  "instance_free_entries es \<Longrightarrow> entries_seen_by Asynchronous es h = entries_seen_by Synchronous es h"
  by (induction x and es arbitrary: h and h rule: instance_free_instance_free_entries.induct) simp_all

text \<open>
  C9 (as amended).  On every platform, store, path, content and state, and at every
  recursion depth, \<^verbatim>\<open>FixtureAsync.make\<close> and \<^verbatim>\<open>Fixture.make\<close> have the same
  outcome on corresponding inputs, that is, when each module is handed the instances of
  its own class: the same error or the same return, the same \<^verbatim>\<open>allowedPaths\<close>, the
  same disk and the same file-system calls in the same order; the two constructors
  accept and refuse the same contents with the same errors.  For one JavaScript value
  \<open>x\<close>: \<^verbatim>\<open>FixtureAsync.make\<close> on the counterpart of \<open>x\<close> does what
  \<^verbatim>\<open>Fixture.make\<close> does on \<open>x\<close>, and on a value that holds no instance of either
  class the two do the same on that same value.
\<close>

theorem async_make_equivalent:
  "FixtureAsync_make n E h pathIn content symlinks st = Fixture_make n E h pathIn content symlinks st
   \<and> new_FixtureAsync h t c = new_Fixture h t c
   \<and> FixtureAsync_make_of n E (counterpart x) pathIn symlinks st = Fixture_make_of n E x pathIn symlinks st
   \<and> (instance_free x \<longrightarrow>
        FixtureAsync_make_of n E x pathIn symlinks st = Fixture_make_of n E x pathIn symlinks st)"
  by (simp add: FixtureAsync_make_eq new_FixtureAsync_eq FixtureAsync_make_of_def Fixture_make_of_def
      counterpart_seen instance_free_seen)

lemma plain_tree_calls:
  "map_option (calls \<circ> snd) (Fixture_make_of 3 posix plain_tree (VString ''/tmp/root'') None state0)
     = Some [Mkdirp ''/tmp/root'', WriteFile ''/tmp/root/a.txt'' (VString ''hello''),
             Mkdirp ''/tmp/root/sub'', WriteFile ''/tmp/root/sub/b.txt'' (VString ''world'')]"
  by code_simp

theorem async_make_equivalent_witness:
  "instance_free plain_tree
   \<and> FixtureAsync_make_of 3 posix plain_tree (VString ''/tmp/root'') None state0
       = Fixture_make_of 3 posix plain_tree (VString ''/tmp/root'') None state0
   \<and> map_option (calls \<circ> snd)
        (FixtureAsync_make_of 3 posix plain_tree (VString ''/tmp/root'') None state0)
     = Some [Mkdirp ''/tmp/root'', WriteFile ''/tmp/root/a.txt'' (VString ''hello''),
             Mkdirp ''/tmp/root/sub'', WriteFile ''/tmp/root/sub/b.txt'' (VString ''world'')]"
proof -
  have i: "instance_free plain_tree" by (simp add: plain_tree_def)
  with async_make_equivalent[where x = plain_tree and n = 3 and E = posix
      and pathIn = "VString ''/tmp/root''" and symlinks = None and st = state0]
  have "FixtureAsync_make_of 3 posix plain_tree (VString ''/tmp/root'') None state0
       = Fixture_make_of 3 posix plain_tree (VString ''/tmp/root'') None state0"
    by blast
  with i plain_tree_calls show ?thesis by simp
qed

text \<open>
  The claim as stated fails on the value \<^verbatim>\<open>{ f: new Fixture('file', 'x') }\<close> handed
  to both modules: \<^verbatim>\<open>Fixture.make\<close> writes the file \<^verbatim>\<open>f\<close>, while for
  \<^verbatim>\<open>FixtureAsync.make\<close> the instance is not one of its own class, so it makes a
  directory \<^verbatim>\<open>f\<close> with the files \<^verbatim>\<open>type\<close> and \<^verbatim>\<open>content\<close>.
\<close>

theorem async_make_counterexample:
  "seen_by Synchronous other_node [] = (VObject 0, [[(''f'', VFixture ''file'' (VString ''x''))]])
   \<and> seen_by Asynchronous other_node []
       = (VObject 0, [[(''f'', VObject 1)], [(''type'', VString ''file''), (''content'', VString ''x'')]])
   \<and> map_option fst (Fixture_make_of 3 posix other_node (VString ''/tmp/root'') None state0)
       = Some (Inr [])
   \<and> map_option (calls \<circ> snd) (Fixture_make_of 3 posix other_node (VString ''/tmp/root'') None state0)
       = Some [Mkdirp ''/tmp/root'', WriteFile ''/tmp/root/f'' (VString ''x'')]
   \<and> map_option fst (FixtureAsync_make_of 3 posix other_node (VString ''/tmp/root'') None state0)
       = Some (Inr [])
   \<and> map_option (calls \<circ> snd)
        (FixtureAsync_make_of 3 posix other_node (VString ''/tmp/root'') None state0)
       = Some [Mkdirp ''/tmp/root'', Mkdirp ''/tmp/root/f'',
               WriteFile ''/tmp/root/f/type'' (VString ''file''),
               WriteFile ''/tmp/root/f/content'' (VString ''x'')]"
  by code_simp

section \<open>Test directories without hooks\<close>

text \<open>
  C8.  Where the hooks throw, the synchronous \<^verbatim>\<open>createTestDir\<close> returns the path
  of the directory it created, and the asynchronous one, which calls the hooks without a
  \<^verbatim>\<open>try\<close> of their own, throws the wrapped error of \<^verbatim>\<open>onTestFailed\<close> after
  it has created the directory.
\<close>

theorem async_createTestDir_fails_without_hooks:
  "map_option fst (createTestDir 2 posix no_hooks one_file (VObject 0) fresh state0 ())
     = Some (Inr ''/tmp/vitest_XXXXXX'')
   \<and> map_option fst (async_createTestDir 2 posix no_hooks one_file (VObject 0) fresh state0 ())
     = Some (Inl (CreateTestDirFailed (ForeignError ''onTestFailed: no test is running'')))"
  by code_simp

end
